theory Spec2Isabelle
  imports Complex_Main
begin

section \<open>JavaScript values that may be absent\<close>

text \<open>
  A property or argument of the TypeScript code is either \<open>undefined\<close> (absent), \<open>null\<close>
  (a JSON or SQL null), or a value.  The operator \<open>??\<close> replaces both absent forms by a
  default, a default parameter or destructuring default replaces \<open>undefined\<close> only, and
  reading a property of \<open>null\<close> without \<open>?.\<close> raises a TypeError.

  A JavaScript number is an IEEE 754 double.  Integers below 2 to the power 53 in magnitude
  (indices, stored values, weights, millisecond timestamps) are exact and are modelled by
  \<open>int\<close>.  The results of \<open>+\<close>, \<open>-\<close>, \<open>*\<close> and \<open>/\<close> on fractions are rounded to the nearest
  double, ties to even (\<open>rnd\<close> below); overflow of these four operations needs magnitudes
  near \<open>1.8e308\<close> and is not modelled.  \<open>Math.pow\<close>, \<open>Math.exp\<close> and \<open>Math.log\<close> are
  only approximated by an implementation, so the formula engine takes the value of a
  formula exactly and models its overflow to \<open>Infinity\<close>: \<open>Math.floor\<close> of a value of
  magnitude 2 to the power 1024 or more is an infinity.
\<close>

datatype 'a js_opt = Undefined | Null | Val 'a

definition nullish :: "'a js_opt \<Rightarrow> 'a \<Rightarrow> 'a" where
  "nullish v d = (case v of Val x \<Rightarrow> x | _ \<Rightarrow> d)"

definition default_param :: "'a js_opt \<Rightarrow> 'a \<Rightarrow> 'a js_opt" where
  "default_param v d = (case v of Undefined \<Rightarrow> Val d | _ \<Rightarrow> v)"

datatype error =
    UnknownSequenceType string
  | ExponentialBaseNotPositive
  | TypeError
  | NotFoundException
  | BadRequestException
  | PersistenceFault
  | NonFiniteNumber
  | IntegerColumnOutOfRange

section \<open>Doubles\<close>

text \<open>The result of \<open>Math.floor\<close>: an integer or an infinity, ordered as JavaScript
  compares them.\<close>

datatype number = NegInfinity | Finite int | PosInfinity

fun number_le :: "number \<Rightarrow> number \<Rightarrow> bool" where
  "number_le NegInfinity b = True"
| "number_le (Finite m) NegInfinity = False"
| "number_le (Finite m) (Finite n) = (m \<le> n)"
| "number_le (Finite m) PosInfinity = True"
| "number_le PosInfinity NegInfinity = False"
| "number_le PosInfinity (Finite n) = False"
| "number_le PosInfinity PosInfinity = True"

instantiation number :: linorder
begin

definition less_eq_number :: "number \<Rightarrow> number \<Rightarrow> bool" where
  "less_eq_number a b = number_le a b"

definition less_number :: "number \<Rightarrow> number \<Rightarrow> bool" where
  "less_number a b = (number_le a b \<and> \<not> number_le b a)"

instance
proof
  fix x y z :: number
  show "(x < y) = (x \<le> y \<and> \<not> y \<le> x)"
    by (simp add: less_number_def less_eq_number_def)
  show "x \<le> x"
    by (cases x) (simp_all add: less_eq_number_def)
  show "x \<le> y \<Longrightarrow> y \<le> z \<Longrightarrow> x \<le> z"
    by (cases x; cases y; cases z) (simp_all add: less_eq_number_def)
  show "x \<le> y \<Longrightarrow> y \<le> x \<Longrightarrow> x = y"
    by (cases x; cases y) (simp_all add: less_eq_number_def)
  show "x \<le> y \<or> y \<le> x"
    by (cases x; cases y) (auto simp: less_eq_number_def)
qed

end

definition math_floor :: "real \<Rightarrow> number" where
  "math_floor v =
     (if 2 ^ 1024 \<le> v then PosInfinity
      else if v \<le> - (2 ^ 1024) then NegInfinity
      else Finite \<lfloor>v\<rfloor>)"

text \<open>\<open>Math.abs(a - b)\<close> on two such numbers; \<open>None\<close> is NaN (the difference of two equal
  infinities), which fails every comparison.\<close>

fun abs_diff :: "number \<Rightarrow> number \<Rightarrow> number option" where
  "abs_diff (Finite a) (Finite b) = Some (Finite \<bar>a - b\<bar>)"
| "abs_diff PosInfinity PosInfinity = None"
| "abs_diff NegInfinity NegInfinity = None"
| "abs_diff a b = Some PosInfinity"

fun diff_less :: "number option \<Rightarrow> number option \<Rightarrow> bool" where
  "diff_less (Some a) (Some b) = (a < b)"
| "diff_less a b = False"

text \<open>Rounding a real to the nearest double, ties to even, with gradual underflow:
  the spacing of doubles around \<open>x\<close> is \<open>2\<close> to the power \<open>\<lfloor>log\<^sub>2 |x|\<rfloor> - 52\<close>, and
  never less than \<open>2\<close> to the power \<open>-1074\<close>.\<close>

definition round_half_even :: "real \<Rightarrow> int" where
  "round_half_even x =
     (let f = \<lfloor>x\<rfloor>; r = x - of_int f
      in if r < 1 / 2 then f
         else if 1 / 2 < r then f + 1
         else if even f then f else f + 1)"

definition spacing :: "real \<Rightarrow> real" where
  "spacing x = 2 powr (of_int (max (- 1022) \<lfloor>log 2 \<bar>x\<bar>\<rfloor>) - 52)"

definition rnd :: "real \<Rightarrow> real" where
  "rnd x = (if x = 0 then 0 else of_int (round_half_even (x / spacing x)) * spacing x)"

section \<open>Sequence formula engine (sequence-formula.service.ts)\<close>

record sequence_params =
  multiplier :: "real js_opt"
  base :: "real js_opt"
  offset :: "real js_opt"
  max_param :: "real js_opt"
  k_param :: "real js_opt"
  inflection :: "real js_opt"

definition empty_params :: sequence_params where
  "empty_params = \<lparr> multiplier = Undefined, base = Undefined, offset = Undefined,
     max_param = Undefined, k_param = Undefined, inflection = Undefined \<rparr>"

record slice_sequence_config =
  type :: string
  params :: "sequence_params js_opt"

text \<open>\<open>params?.field ?? d\<close>: optional chaining, then the default.\<close>

definition opt_field :: "sequence_params js_opt \<Rightarrow> (sequence_params \<Rightarrow> real js_opt) \<Rightarrow> real \<Rightarrow> real" where
  "opt_field ps field d = (case ps of Val p \<Rightarrow> nullish (field p) d | _ \<Rightarrow> d)"

text \<open>\<open>params.field ?? d\<close>: no optional chaining, so a null \<open>params\<close> raises.\<close>

definition strict_field :: "sequence_params js_opt \<Rightarrow> (sequence_params \<Rightarrow> real js_opt) \<Rightarrow> real \<Rightarrow> error + real" where
  "strict_field ps field d =
     (case ps of Val p \<Rightarrow> Inr (nullish (field p) d) | Null \<Rightarrow> Inl TypeError | Undefined \<Rightarrow> Inl TypeError)"

definition calculateLinear :: "int \<Rightarrow> sequence_params js_opt \<Rightarrow> real" where
  "calculateLinear index ps =
     opt_field ps multiplier 1 * real_of_int index + opt_field ps offset 0"

definition calculateExponential :: "int \<Rightarrow> sequence_params js_opt \<Rightarrow> error + real" where
  "calculateExponential index ps =
     (let b = opt_field ps base 2
      in if b \<le> 0 then Inl ExponentialBaseNotPositive else Inr (b ^ nat index))"

definition calculateSqrt :: "int \<Rightarrow> sequence_params js_opt \<Rightarrow> real" where
  "calculateSqrt index ps =
     opt_field ps multiplier 1 * sqrt (real_of_int index) + opt_field ps offset 0"

definition calculateLogarithmic :: "int \<Rightarrow> sequence_params js_opt \<Rightarrow> real" where
  "calculateLogarithmic index ps =
     opt_field ps multiplier 10 * ln (real_of_int index + 1) + opt_field ps offset 0"

definition calculateSigmoid :: "int \<Rightarrow> sequence_params js_opt \<Rightarrow> real" where
  "calculateSigmoid index ps =
     opt_field ps max_param 100 /
       (1 + exp (- opt_field ps k_param (2 / 10) * (real_of_int index - opt_field ps inflection 15)))"

text \<open>The \<open>switch\<close> inside the \<open>try\<close> block: a thrown error is the left injection.\<close>

definition formula_value :: "string \<Rightarrow> sequence_params js_opt \<Rightarrow> int \<Rightarrow> error + real" where
  "formula_value t ps index =
     (if t = ''linear'' then Inr (calculateLinear index ps)
      else if t = ''exponential'' then calculateExponential index ps
      else if t = ''sqrt'' then Inr (calculateSqrt index ps)
      else if t = ''logarithmic'' then Inr (calculateLogarithmic index ps)
      else if t = ''sigmoid'' then Inr (calculateSigmoid index ps)
      else Inl (UnknownSequenceType t))"

definition calculateValue :: "slice_sequence_config \<Rightarrow> int \<Rightarrow> number" where
  "calculateValue config index0 =
     (let index = (if index0 < 0 then 0 else index0);
          ps = default_param (params config) empty_params
      in case formula_value (type config) ps index of
           Inr v \<Rightarrow> math_floor v
         | Inl e \<Rightarrow> Finite 0)"

definition isMonotonicIncreasing :: "slice_sequence_config \<Rightarrow> error + bool" where
  "isMonotonicIncreasing config =
     (let t = type config; ps = default_param (params config) empty_params
      in if t = ''linear'' then map_sum id (\<lambda>m. m \<ge> 0) (strict_field ps multiplier 1)
         else if t = ''exponential'' then map_sum id (\<lambda>b. b \<ge> 1) (strict_field ps base 2)
         else if t = ''sqrt'' then map_sum id (\<lambda>m. m \<ge> 0) (strict_field ps multiplier 1)
         else if t = ''logarithmic'' then map_sum id (\<lambda>m. m \<ge> 0) (strict_field ps multiplier 10)
         else if t = ''sigmoid'' then Inr True
         else Inr False)"

text \<open>The \<open>while (left <= right)\<close> loop of \<open>binarySearchIndex\<close>, with its four variables.\<close>

function binarySearchLoop ::
  "slice_sequence_config \<Rightarrow> number \<Rightarrow> int \<Rightarrow> int \<Rightarrow> int \<Rightarrow> number option \<Rightarrow> int" where
  "binarySearchLoop config targetValue left right closestIndex closestDiff =
     (if left \<le> right then
        (let mid = (left + right) div 2;
             midValue = calculateValue config mid;
             diff = abs_diff midValue targetValue;
             closestDiff' = (if diff_less diff closestDiff then diff else closestDiff);
             closestIndex' = (if diff_less diff closestDiff then mid else closestIndex)
         in if midValue < targetValue then
              binarySearchLoop config targetValue (mid + 1) right closestIndex' closestDiff'
            else if targetValue < midValue then
              binarySearchLoop config targetValue left (mid - 1) closestIndex' closestDiff'
            else mid)
      else closestIndex)"
  by pat_completeness auto
termination
  by (relation "measure (\<lambda>(config, targetValue, left, right, closestIndex, closestDiff).
                  nat (right - left + 1))") auto

definition binarySearchIndex :: "slice_sequence_config \<Rightarrow> number \<Rightarrow> int \<Rightarrow> int \<Rightarrow> int" where
  "binarySearchIndex config targetValue minIndex maxIndex =
     binarySearchLoop config targetValue minIndex maxIndex minIndex
       (abs_diff (calculateValue config minIndex) targetValue)"

text \<open>The \<open>for (let i = 1; i <= maxIndex; i++)\<close> loop of \<open>linearSearchIndex\<close>.\<close>

function linearSearchLoop ::
  "slice_sequence_config \<Rightarrow> number \<Rightarrow> int \<Rightarrow> int \<Rightarrow> int \<Rightarrow> number option \<Rightarrow> int" where
  "linearSearchLoop config targetValue maxIndex i closestIndex closestDiff =
     (if i \<le> maxIndex then
        (let v = calculateValue config i;
             diff = abs_diff v targetValue
         in if diff_less diff closestDiff
            then linearSearchLoop config targetValue maxIndex (i + 1) i diff
            else linearSearchLoop config targetValue maxIndex (i + 1) closestIndex closestDiff)
      else closestIndex)"
  by pat_completeness auto
termination
  by (relation "measure (\<lambda>(config, targetValue, maxIndex, i, closestIndex, closestDiff).
                  nat (maxIndex - i + 1))") auto

definition linearSearchIndex :: "slice_sequence_config \<Rightarrow> number \<Rightarrow> int \<Rightarrow> int" where
  "linearSearchIndex config targetValue maxIndex =
     linearSearchLoop config targetValue maxIndex 1 0
       (abs_diff (calculateValue config 0) targetValue)"

text \<open>\<open>maxIndex: number = 1000\<close> is a default parameter of type \<open>number\<close>: the argument is
  either omitted (\<open>None\<close>) or a number.\<close>

definition findClosestIndex ::
  "slice_sequence_config \<Rightarrow> number \<Rightarrow> int option \<Rightarrow> error + int" where
  "findClosestIndex config targetValue maxIndexArg =
     (let maxIndex = (case maxIndexArg of Some m \<Rightarrow> m | None \<Rightarrow> 1000)
      in if targetValue \<le> Finite 0 then Inr 0
         else case isMonotonicIncreasing config of
                Inl e \<Rightarrow> Inl e
              | Inr True \<Rightarrow> Inr (binarySearchIndex config targetValue 0 maxIndex)
              | Inr False \<Rightarrow> Inr (linearSearchIndex config targetValue maxIndex))"


section \<open>The store (Slice, SliceUpdate, SliceComponent, SliceComponentUpdate tables)\<close>

text \<open>
  Rows are kept in lists, in insertion order; the two audit tables only ever grow at the end.
  Timestamps are milliseconds of local time (the deployment zone has a fixed offset, so a
  day is 86400000 ms).  The integer columns of Slice and SliceUpdate are SQL INTEGER
  (32 bits): a write of the update engine whose number is outside that range, or is not
  finite, is rejected by the store and raises.  The \<open>expectedTime\<close> text \<open>HH:MM\<close> is held as its parsed pair of
  hours and minutes.
\<close>

record slice =
  slice_id :: string
  slug :: string
  increaseType :: string
  increaseParams :: "sequence_params js_opt"
  decreaseType :: string
  decreaseParams :: "sequence_params js_opt"
  currentIndex :: int
  currentValue :: int
  temporalType :: "string option"
  expectedTime :: "(int \<times> int) option"
  gracePeriod :: "int option"
  penaltyInterval :: "int option"
  penaltyAmount :: "int option"
  maxInterval :: "int option"
  resetDaily :: bool
  isComposite :: bool

record slice_update =
  sliceId :: string
  delta :: int
  deltaType :: string
  valueBefore :: int
  valueAfter :: int
  indexBefore :: int
  indexAfter :: int
  date :: int
  update_notes :: "string option"
  automatic :: bool

record slice_component =
  component_id :: string
  component_sliceId :: string
  key :: string
  weight :: int
  component_currentValue :: int
  maxValue :: int
  decayType :: string
  decayRate :: real
  lastChecked :: "int option"

record slice_component_update =
  componentId :: string
  component_valueBefore :: int
  component_valueAfter :: int
  component_date :: int
  component_notes :: "string option"

record store =
  slices :: "slice list"
  sliceUpdates :: "slice_update list"
  sliceComponents :: "slice_component list"
  sliceComponentUpdates :: "slice_component_update list"

text \<open>
  A persistence call may raise.  \<open>FaultAt n\<close> makes the \<open>n\<close>-th persistence call of one
  service operation (counted from 0) raise \<open>PersistenceFault\<close>; the calls before it have
  taken effect, since the service opens no transaction.
\<close>

datatype fault = NoFault | FaultAt nat

definition fits_integer_column :: "int \<Rightarrow> bool" where
  "fits_integer_column v = (- 2147483648 \<le> v \<and> v \<le> 2147483647)"

definition storable :: "number \<Rightarrow> bool" where
  "storable v = (case v of Finite n \<Rightarrow> fits_integer_column n | _ \<Rightarrow> False)"

definition stored :: "number \<Rightarrow> int" where
  "stored v = (case v of Finite n \<Rightarrow> n | _ \<Rightarrow> 0)"

definition find_slice :: "store \<Rightarrow> string \<Rightarrow> slice option" where
  "find_slice db sid = find (\<lambda>s. slice_id s = sid) (slices db)"

definition update_slice_row :: "store \<Rightarrow> string \<Rightarrow> (slice \<Rightarrow> slice) \<Rightarrow> store" where
  "update_slice_row db sid f =
     db\<lparr>slices := map (\<lambda>s. if slice_id s = sid then f s else s) (slices db)\<rparr>"

definition create_slice_update :: "store \<Rightarrow> slice_update \<Rightarrow> store" where
  "create_slice_update db row = db\<lparr>sliceUpdates := sliceUpdates db @ [row]\<rparr>"

definition update_component_row ::
  "store \<Rightarrow> string \<Rightarrow> (slice_component \<Rightarrow> slice_component) \<Rightarrow> store" where
  "update_component_row db cid f =
     db\<lparr>sliceComponents := map (\<lambda>c. if component_id c = cid then f c else c) (sliceComponents db)\<rparr>"

definition create_component_update :: "store \<Rightarrow> slice_component_update \<Rightarrow> store" where
  "create_component_update db row = db\<lparr>sliceComponentUpdates := sliceComponentUpdates db @ [row]\<rparr>"

definition components_of :: "store \<Rightarrow> string \<Rightarrow> slice_component list" where
  "components_of db sid = filter (\<lambda>c. component_sliceId c = sid) (sliceComponents db)"

text \<open>\<open>orderBy: { date: 'desc' }, take: 1\<close>: the row with the greatest date; among equal
  dates the one inserted last.\<close>

fun latest :: "slice_update list \<Rightarrow> slice_update option" where
  "latest [] = None"
| "latest (u # us) =
     (case latest us of
        None \<Rightarrow> Some u
      | Some v \<Rightarrow> if date u \<le> date v then Some v else Some u)"

definition latest_update :: "store \<Rightarrow> string \<Rightarrow> slice_update option" where
  "latest_update db sid = latest (filter (\<lambda>u. sliceId u = sid) (sliceUpdates db))"

section \<open>Slice update engine (slice.service.ts)\<close>

definition MAX_INDEX :: int where
  "MAX_INDEX = 10000"

definition findOne :: "store \<Rightarrow> string \<Rightarrow> error + slice" where
  "findOne db sid = (case find_slice db sid of None \<Rightarrow> Inl NotFoundException | Some s \<Rightarrow> Inr s)"

definition select_config :: "slice \<Rightarrow> bool \<Rightarrow> slice_sequence_config" where
  "select_config s isIncrease =
     \<lparr> type = (if isIncrease then increaseType s else decreaseType s),
       params = (if isIncrease then increaseParams s else decreaseParams s) \<rparr>"

text \<open>The common tail of the three updates: \<open>sliceUpdate.create\<close> (persistence call 1), then
  \<open>slice.update\<close> (persistence call 2).  Call 0 is the \<open>findOne\<close> at the start.  The create
  is rejected when one of its integer fields does not fit its column; the values of the
  second write are among those of the first.\<close>

definition create_accepted :: "slice \<Rightarrow> int \<Rightarrow> int \<Rightarrow> number \<Rightarrow> bool" where
  "create_accepted s d newIndex newValue =
     (fits_integer_column d \<and> fits_integer_column (currentValue s) \<and> storable newValue
      \<and> fits_integer_column (currentIndex s) \<and> fits_integer_column newIndex)"

definition write_update ::
  "store \<Rightarrow> fault \<Rightarrow> int \<Rightarrow> slice \<Rightarrow> int \<Rightarrow> string \<Rightarrow> int \<Rightarrow> number \<Rightarrow> string option \<Rightarrow> bool
   \<Rightarrow> store \<times> (error + slice)" where
  "write_update db flt now s d dt newIndex newValue nts auto =
     (if flt = FaultAt 1 then (db, Inl PersistenceFault)
      else if \<not> create_accepted s d newIndex newValue
      then (db, Inl IntegerColumnOutOfRange)
      else
        let db1 = create_slice_update db
              \<lparr> sliceId = slice_id s, delta = d, deltaType = dt,
                valueBefore = currentValue s, valueAfter = stored newValue,
                indexBefore = currentIndex s, indexAfter = newIndex,
                date = now, update_notes = nts, automatic = auto \<rparr>
        in if flt = FaultAt 2 then (db1, Inl PersistenceFault)
           else
             (update_slice_row db1 (slice_id s)
                (\<lambda>r. r\<lparr>currentIndex := newIndex, currentValue := stored newValue\<rparr>),
              Inr (s\<lparr>currentIndex := newIndex, currentValue := stored newValue\<rparr>)))"

definition updateBySteps ::
  "store \<Rightarrow> fault \<Rightarrow> int \<Rightarrow> string \<Rightarrow> int \<Rightarrow> string option \<Rightarrow> bool \<Rightarrow> store \<times> (error + slice)" where
  "updateBySteps db flt now sid steps nts auto =
     (if flt = FaultAt 0 then (db, Inl PersistenceFault)
      else case findOne db sid of
        Inl e \<Rightarrow> (db, Inl e)
      | Inr s \<Rightarrow>
          if isComposite s then (db, Inl BadRequestException)
          else
            let oldIndex = currentIndex s;
                newIndex = max 0 (min (oldIndex + steps) MAX_INDEX);
                isIncrease = (steps \<ge> 0);
                config = select_config s isIncrease;
                newValue = calculateValue config newIndex
            in write_update db flt now s steps ''steps'' newIndex newValue nts auto)"

definition updateByPercentage ::
  "store \<Rightarrow> fault \<Rightarrow> int \<Rightarrow> string \<Rightarrow> int \<Rightarrow> string option \<Rightarrow> store \<times> (error + slice)" where
  "updateByPercentage db flt now sid percentage nts =
     (if flt = FaultAt 0 then (db, Inl PersistenceFault)
      else case findOne db sid of
        Inl e \<Rightarrow> (db, Inl e)
      | Inr s \<Rightarrow>
          if isComposite s then (db, Inl BadRequestException)
          else
            let oldValue = currentValue s;
                targetValue =
                  max 0 \<lfloor>rnd (real_of_int oldValue * rnd (1 + rnd (real_of_int percentage / 100)))\<rfloor>;
                isIncrease = (percentage \<ge> 0);
                config = select_config s isIncrease
            in case findClosestIndex config (Finite targetValue) (Some MAX_INDEX) of
                 Inl e \<Rightarrow> (db, Inl e)
               | Inr newIndex \<Rightarrow>
                   write_update db flt now s percentage ''percentage'' newIndex
                     (calculateValue config newIndex) nts False)"

definition updateToValue ::
  "store \<Rightarrow> fault \<Rightarrow> int \<Rightarrow> string \<Rightarrow> int \<Rightarrow> string option \<Rightarrow> store \<times> (error + slice)" where
  "updateToValue db flt now sid v nts =
     (if flt = FaultAt 0 then (db, Inl PersistenceFault)
      else case findOne db sid of
        Inl e \<Rightarrow> (db, Inl e)
      | Inr s \<Rightarrow>
          if isComposite s then (db, Inl BadRequestException)
          else if v < 0 then (db, Inl BadRequestException)
          else
            let oldValue = currentValue s;
                isIncrease = (v \<ge> oldValue);
                config = select_config s isIncrease
            in case findClosestIndex config (Finite v) (Some MAX_INDEX) of
                 Inl e \<Rightarrow> (db, Inl e)
               | Inr newIndex \<Rightarrow>
                   write_update db flt now s v ''absolute'' newIndex
                     (calculateValue config newIndex) nts False)"


section \<open>Time utilities (time.utils.ts)\<close>

definition minutesElapsed :: "int \<Rightarrow> int \<Rightarrow> int" where
  "minutesElapsed from to = (to - from) div (1000 * 60)"

definition hoursElapsed :: "int \<Rightarrow> int \<Rightarrow> real" where
  "hoursElapsed from to = rnd (real_of_int (minutesElapsed from to) / 60)"

definition daysElapsed :: "int \<Rightarrow> int \<Rightarrow> real" where
  "daysElapsed from to = rnd (hoursElapsed from to / 24)"

definition weeksElapsed :: "int \<Rightarrow> int \<Rightarrow> real" where
  "weeksElapsed from to = rnd (daysElapsed from to / 7)"

definition getStartOfDay :: "int \<Rightarrow> int" where
  "getStartOfDay d = d - d mod 86400000"

definition isSameDay :: "int \<Rightarrow> int \<Rightarrow> bool" where
  "isSameDay date1 date2 = (date1 div 86400000 = date2 div 86400000)"

text \<open>The clock read inside \<open>isPastScheduledTime\<close> is the parameter \<open>now\<close>: the clock does
  not advance during one evaluation.\<close>

definition isPastScheduledTime :: "int \<Rightarrow> int \<times> int \<Rightarrow> int \<Rightarrow> bool \<times> int" where
  "isPastScheduledTime now timeString gracePeriodMinutes =
     (let hours = fst timeString; minutes = snd timeString;
          expected = getStartOfDay now + hours * 3600000 + minutes * 60000;
          deadlineTime = expected + gracePeriodMinutes * 60 * 1000;
          minutesLate = minutesElapsed deadlineTime now
      in (now > deadlineTime, max 0 minutesLate))"

section \<open>Composite aggregation engine (composite-slice.service.ts)\<close>

text \<open>\<open>periods * component.decayRate\<close>, then \<open>Math.max(0, currentValue - decayAmount)\<close>.\<close>

definition decayed_by :: "slice_component \<Rightarrow> real \<Rightarrow> real" where
  "decayed_by component periods =
     max 0 (rnd (real_of_int (component_currentValue component)
                 - rnd (periods * rnd (decayRate component))))"

definition applyDecay :: "slice_component \<Rightarrow> int \<Rightarrow> real" where
  "applyDecay component now =
     (case lastChecked component of
        None \<Rightarrow> 0
      | Some lc \<Rightarrow>
          let elapsedMs = real_of_int (now - lc)
          in if decayType component = ''hourly'' then
               decayed_by component (rnd (elapsedMs / (1000 * 60 * 60)))
             else if decayType component = ''daily'' then
               decayed_by component (rnd (elapsedMs / (1000 * 60 * 60 * 24)))
             else if decayType component = ''weekly'' then
               decayed_by component (rnd (elapsedMs / (1000 * 60 * 60 * 24 * 7)))
             else real_of_int (component_currentValue component))"

text \<open>The \<open>for\<close> loop accumulating \<open>weightedSum\<close> and \<open>totalWeight\<close>.\<close>

fun weighted_loop :: "int \<Rightarrow> slice_component list \<Rightarrow> real \<times> int \<Rightarrow> real \<times> int" where
  "weighted_loop now [] acc = acc"
| "weighted_loop now (c # cs) (weightedSum, totalWeight) =
     weighted_loop now cs
       (rnd (weightedSum + rnd (applyDecay c now * rnd (real_of_int (weight c) / 100))),
        totalWeight + weight c)"

definition calculateCompositeValue :: "store \<Rightarrow> slice \<Rightarrow> int \<Rightarrow> error + int" where
  "calculateCompositeValue db s now =
     (if \<not> isComposite s then Inl BadRequestException
      else
        let components = components_of db (slice_id s)
        in if length components = 0 then Inr 0
           else
             let (weightedSum, totalWeight) = weighted_loop now components (0, 0)
             in if totalWeight = 0 then Inr 0
                else Inr \<lfloor>rnd (rnd (weightedSum * 100) / real_of_int totalWeight)\<rfloor>)"

definition check_off :: "store \<Rightarrow> int \<Rightarrow> slice_component \<Rightarrow> int \<Rightarrow> string option \<Rightarrow> store" where
  "check_off db now component newValue nts =
     (let db1 = create_component_update db
            \<lparr> componentId = component_id component,
              component_valueBefore = component_currentValue component,
              component_valueAfter = newValue,
              component_date = now, component_notes = nts \<rparr>
      in update_component_row db1 (component_id component)
           (\<lambda>c. c\<lparr>component_currentValue := newValue, lastChecked := Some now\<rparr>))"

definition recalculate_parent :: "store \<Rightarrow> slice \<Rightarrow> int \<Rightarrow> store \<times> (error + slice)" where
  "recalculate_parent db s now =
     (case calculateCompositeValue db s now of
        Inl e \<Rightarrow> (db, Inl e)
      | Inr compositeValue \<Rightarrow>
          (update_slice_row db (slice_id s) (\<lambda>r. r\<lparr>currentValue := compositeValue\<rparr>),
           Inr (s\<lparr>currentValue := compositeValue\<rparr>)))"

definition updateComponent ::
  "store \<Rightarrow> int \<Rightarrow> string \<Rightarrow> string \<Rightarrow> int js_opt \<Rightarrow> string option \<Rightarrow> store \<times> (error + slice)" where
  "updateComponent db now sid componentKey v nts =
     (case find_slice db sid of
        None \<Rightarrow> (db, Inl NotFoundException)
      | Some s \<Rightarrow>
          if \<not> isComposite s then (db, Inl BadRequestException)
          else case find (\<lambda>c. key c = componentKey) (components_of db sid) of
            None \<Rightarrow> (db, Inl NotFoundException)
          | Some component \<Rightarrow>
              let newValue = nullish v (maxValue component)
              in if newValue < 0 \<or> newValue > maxValue component
                 then (db, Inl BadRequestException)
                 else recalculate_parent (check_off db now component newValue nts) s now)"

text \<open>The loop of \<open>updateMultipleComponents\<close> looks each key up in the components read at
  the start of the call.\<close>

fun check_off_keys ::
  "store \<Rightarrow> int \<Rightarrow> slice_component list \<Rightarrow> string list \<Rightarrow> string option \<Rightarrow> store" where
  "check_off_keys db now snapshot [] nts = db"
| "check_off_keys db now snapshot (k # ks) nts =
     (case find (\<lambda>c. key c = k) snapshot of
        None \<Rightarrow> check_off_keys db now snapshot ks nts
      | Some component \<Rightarrow>
          check_off_keys (check_off db now component (maxValue component) nts) now snapshot ks nts)"

definition updateMultipleComponents ::
  "store \<Rightarrow> int \<Rightarrow> string \<Rightarrow> string list \<Rightarrow> string option \<Rightarrow> store \<times> (error + slice)" where
  "updateMultipleComponents db now sid componentKeys nts =
     (case find_slice db sid of
        None \<Rightarrow> (db, Inl NotFoundException)
      | Some s \<Rightarrow>
          if \<not> isComposite s then (db, Inl BadRequestException)
          else recalculate_parent
                 (check_off_keys db now (components_of db sid) componentKeys nts) s now)"

section \<open>Composite decay scheduler (composite-decay.scheduler.ts)\<close>

definition periods_elapsed :: "slice_component \<Rightarrow> int \<Rightarrow> int \<Rightarrow> real option" where
  "periods_elapsed component lc now =
     (if decayType component = ''hourly'' then Some (hoursElapsed lc now)
      else if decayType component = ''daily'' then Some (daysElapsed lc now)
      else if decayType component = ''weekly'' then Some (weeksElapsed lc now)
      else None)"

definition decayComponent :: "store \<Rightarrow> slice_component \<Rightarrow> int \<Rightarrow> store \<times> bool" where
  "decayComponent db component now =
     (case lastChecked component of
        None \<Rightarrow> (db, False)
      | Some lc \<Rightarrow>
          (case periods_elapsed component lc now of
             None \<Rightarrow> (db, False)
           | Some periodsElapsed \<Rightarrow>
               if periodsElapsed < 1 then (db, False)
               else
                 let decayAmount = \<lfloor>rnd (periodsElapsed * rnd (decayRate component))\<rfloor>
                 in if decayAmount \<le> 0 then (db, False)
                    else
                      let newValue = max 0 (component_currentValue component - decayAmount)
                      in if newValue = component_currentValue component then (db, False)
                         else
                           let db1 = update_component_row db (component_id component)
                                       (\<lambda>c. c\<lparr>component_currentValue := newValue\<rparr>);
                               db2 = create_component_update db1
                                       \<lparr> componentId = component_id component,
                                         component_valueBefore = component_currentValue component,
                                         component_valueAfter = newValue,
                                         component_date = now,
                                         component_notes = Some ''Automatic decay'' \<rparr>
                           in (db2, True)))"

fun decay_loop :: "store \<Rightarrow> slice_component list \<Rightarrow> int \<Rightarrow> bool \<Rightarrow> store \<times> bool" where
  "decay_loop db [] now hasChanges = (db, hasChanges)"
| "decay_loop db (c # cs) now hasChanges =
     (case decayComponent db c now of
        (db', decayed) \<Rightarrow> decay_loop db' cs now (if decayed then True else hasChanges))"

fun plain_weighted_loop :: "slice_component list \<Rightarrow> real \<times> int \<Rightarrow> real \<times> int" where
  "plain_weighted_loop [] acc = acc"
| "plain_weighted_loop (c # cs) (weightedSum, totalWeight) =
     plain_weighted_loop cs
       (rnd (weightedSum
             + rnd (real_of_int (component_currentValue c) * rnd (real_of_int (weight c) / 100))),
        totalWeight + weight c)"

definition recalculateCompositeValue :: "store \<Rightarrow> slice \<Rightarrow> store" where
  "recalculateCompositeValue db s =
     (let components = components_of db (slice_id s)
      in if length components = 0 then db
         else
           let (weightedSum, totalWeight) = plain_weighted_loop components (0, 0);
               normalizedValue =
                 (if totalWeight > 0
                  then \<lfloor>rnd (rnd (weightedSum * 100) / real_of_int totalWeight)\<rfloor> else 0)
           in update_slice_row db (slice_id s) (\<lambda>r. r\<lparr>currentValue := normalizedValue\<rparr>))"

definition decayCompositeSlice :: "store \<Rightarrow> slice \<Rightarrow> slice_component list \<Rightarrow> int \<Rightarrow> store" where
  "decayCompositeSlice db s components now =
     (case decay_loop db components now False of
        (db', hasChanges) \<Rightarrow> if hasChanges then recalculateCompositeValue db' s else db')"

text \<open>\<open>applyCompositeDecay\<close> reads every composite slice with its components first, then
  decays them one after the other.\<close>

fun decay_slices :: "store \<Rightarrow> (slice \<times> slice_component list) list \<Rightarrow> int \<Rightarrow> store" where
  "decay_slices db [] now = db"
| "decay_slices db ((s, cs) # rest) now = decay_slices (decayCompositeSlice db s cs now) rest now"

definition applyCompositeDecay :: "store \<Rightarrow> int \<Rightarrow> store" where
  "applyCompositeDecay db now =
     decay_slices db
       (map (\<lambda>s. (s, components_of db (slice_id s))) (filter isComposite (slices db))) now"


section \<open>Penalty schedulers (scheduled-slice.scheduler.ts, continuous-slice.scheduler.ts)\<close>

text \<open>
  A null column read in arithmetic is 0 (\<open>slice.gracePeriod || 0\<close>, \<open>x * null\<close>,
  \<open>x <= null\<close>).  Dividing by a null or zero \<open>penaltyInterval\<close> gives NaN or Infinity in
  the source; NaN fails both comparisons that follow and nothing is done, and Infinity is
  reported here as \<open>NonFiniteNumber\<close>, with the store unchanged.
  The interpolated numbers of the note text are left out.
\<close>

definition null_as_zero :: "int option \<Rightarrow> int" where
  "null_as_zero v = (case v of None \<Rightarrow> 0 | Some n \<Rightarrow> n)"

definition count_automatic_since :: "store \<Rightarrow> string \<Rightarrow> int \<Rightarrow> int" where
  "count_automatic_since db sid since =
     int (length (filter (\<lambda>u. sliceId u = sid \<and> automatic u \<and> date u \<ge> since) (sliceUpdates db)))"

definition count_automatic_after :: "store \<Rightarrow> string \<Rightarrow> int \<Rightarrow> int" where
  "count_automatic_after db sid after =
     int (length (filter (\<lambda>u. sliceId u = sid \<and> automatic u \<and> date u > after) (sliceUpdates db)))"

definition applyAutomaticPenalty ::
  "store \<Rightarrow> int \<Rightarrow> slice \<Rightarrow> int \<Rightarrow> string \<Rightarrow> store \<times> (error + unit)" where
  "applyAutomaticPenalty db now s d nts =
     (case updateBySteps db NoFault now (slice_id s) d (Some nts) True of
        (db', r) \<Rightarrow> (db', map_sum id (\<lambda>_. ()) r))"

text \<open>\<open>penaltiesToApply\<close> as \<open>evaluateScheduledSlice\<close> computes it once the slice is past its
  deadline and \<open>penaltiesDue\<close> is positive.\<close>

definition scheduled_penaltiesToApply :: "store \<Rightarrow> slice \<Rightarrow> int \<Rightarrow> int \<Rightarrow> int" where
  "scheduled_penaltiesToApply db s today penaltiesDue =
     max 0 (penaltiesDue - count_automatic_since db (slice_id s) today)"

definition evaluateScheduledSlice ::
  "store \<Rightarrow> slice \<Rightarrow> slice_update option \<Rightarrow> int \<Rightarrow> int \<Rightarrow> store \<times> (error + unit)" where
  "evaluateScheduledSlice db s updates0 now today =
     (let hasReportedToday =
            (case updates0 of
               None \<Rightarrow> False
             | Some u \<Rightarrow> \<not> automatic u \<and> isSameDay (date u) now)
      in if hasReportedToday then (db, Inr ())
         else case expectedTime s of
           None \<Rightarrow> (db, Inl TypeError)
         | Some timeString \<Rightarrow>
             (case isPastScheduledTime now timeString (null_as_zero (gracePeriod s)) of
                (isPast, minutesLate) \<Rightarrow>
                  if \<not> isPast then (db, Inr ())
                  else if null_as_zero (penaltyInterval s) = 0 then
                    (if minutesLate = 0 then (db, Inr ()) else (db, Inl NonFiniteNumber))
                  else
                    let penaltiesDue = minutesLate div null_as_zero (penaltyInterval s)
                    in if penaltiesDue \<le> 0 then (db, Inr ())
                       else
                         let penaltiesToApply = scheduled_penaltiesToApply db s today penaltiesDue
                         in if penaltiesToApply > 0 then
                              applyAutomaticPenalty db now s
                                (penaltiesToApply * null_as_zero (penaltyAmount s))
                                ''Scheduled penalty''
                            else (db, Inr ())))"

text \<open>The sweep reads the scheduled slices with their latest update first; an error raised
  by one slice ends the loop (the \<open>try\<close> encloses the whole loop).\<close>

fun evaluate_scheduled_all ::
  "store \<Rightarrow> (slice \<times> slice_update option) list \<Rightarrow> int \<Rightarrow> int \<Rightarrow> store" where
  "evaluate_scheduled_all db [] now today = db"
| "evaluate_scheduled_all db ((s, u) # rest) now today =
     (case evaluateScheduledSlice db s u now today of
        (db', Inl e) \<Rightarrow> db'
      | (db', Inr _) \<Rightarrow> evaluate_scheduled_all db' rest now today)"

definition checkScheduledSlices :: "store \<Rightarrow> int \<Rightarrow> store" where
  "checkScheduledSlices db now =
     evaluate_scheduled_all db
       (map (\<lambda>s. (s, latest_update db (slice_id s)))
          (filter (\<lambda>s. temporalType s = Some ''scheduled'') (slices db)))
       now (getStartOfDay now)"

definition evaluateContinuousSlice ::
  "store \<Rightarrow> slice \<Rightarrow> slice_update option \<Rightarrow> int \<Rightarrow> store \<times> (error + unit)" where
  "evaluateContinuousSlice db s updates0 now =
     (case updates0 of
        None \<Rightarrow> (db, Inr ())
      | Some lastUpdate \<Rightarrow>
          let minutesSinceUpdate = minutesElapsed (date lastUpdate) now
          in if minutesSinceUpdate \<le> null_as_zero (maxInterval s) then (db, Inr ())
             else if null_as_zero (penaltyInterval s) = 0 then (db, Inl NonFiniteNumber)
             else
               let excessMinutes = minutesSinceUpdate - null_as_zero (maxInterval s);
                   penaltiesDue = excessMinutes div null_as_zero (penaltyInterval s)
               in if penaltiesDue \<le> 0 then (db, Inr ())
                  else
                    let penaltiesToApply =
                          max 0 (penaltiesDue - count_automatic_after db (slice_id s) (date lastUpdate))
                    in if penaltiesToApply > 0 then
                         applyAutomaticPenalty db now s
                           (penaltiesToApply * null_as_zero (penaltyAmount s))
                           ''Continuous penalty''
                       else (db, Inr ()))"

section \<open>Daily reset (slice-temporal.service.ts)\<close>

fun reset_loop :: "store \<Rightarrow> slice list \<Rightarrow> store" where
  "reset_loop db [] = db"
| "reset_loop db (s # rest) =
     reset_loop (update_slice_row db (slice_id s) (\<lambda>r. r\<lparr>currentIndex := 0, currentValue := 0\<rparr>)) rest"

definition resetDailySlices :: "store \<Rightarrow> store" where
  "resetDailySlices db = reset_loop db (filter resetDaily (slices db))"

section \<open>The composite value as the specification words it, in exact arithmetic\<close>

definition spec_periods :: "slice_component \<Rightarrow> int \<Rightarrow> int \<Rightarrow> real" where
  "spec_periods c lc now =
     real_of_int (now - lc) /
       (if decayType c = ''hourly'' then 3600000
        else if decayType c = ''daily'' then 86400000
        else 604800000)"

definition spec_decayedValue :: "slice_component \<Rightarrow> int \<Rightarrow> real" where
  "spec_decayedValue c now =
     (case lastChecked c of
        None \<Rightarrow> 0
      | Some lc \<Rightarrow> max 0 (real_of_int (component_currentValue c) - spec_periods c lc now * decayRate c))"

definition spec_compositeValue :: "slice_component list \<Rightarrow> int \<Rightarrow> int" where
  "spec_compositeValue cs now =
     (if (\<Sum>c\<leftarrow>cs. weight c) = 0 then 0
      else \<lfloor>(\<Sum>c\<leftarrow>cs. spec_decayedValue c now * real_of_int (weight c))
             / real_of_int (\<Sum>c\<leftarrow>cs. weight c)\<rfloor>)"

section \<open>Concrete configurations used in the examples\<close>

definition linear_config :: "real \<Rightarrow> real \<Rightarrow> slice_sequence_config" where
  "linear_config m b = \<lparr> type = ''linear'',
      params = Val (empty_params\<lparr>multiplier := Val m, offset := Val b\<rparr>) \<rparr>"

definition exponential_config :: "real \<Rightarrow> slice_sequence_config" where
  "exponential_config b = \<lparr> type = ''exponential'', params = Val (empty_params\<lparr>base := Val b\<rparr>) \<rparr>"

definition sigmoid_config :: "real \<Rightarrow> real \<Rightarrow> real \<Rightarrow> slice_sequence_config" where
  "sigmoid_config m kk c = \<lparr> type = ''sigmoid'',
      params = Val (empty_params\<lparr>max_param := Val m, k_param := Val kk, inflection := Val c\<rparr>) \<rparr>"

section \<open>Outcomes of an update and the index range\<close>

definition appended_one :: "'a list \<Rightarrow> 'a list \<Rightarrow> bool" where
  "appended_one old new = (new \<noteq> [] \<and> butlast new = old)"

definition audit_agrees :: "slice_update \<Rightarrow> slice \<Rightarrow> bool" where
  "audit_agrees row s =
     (sliceId row = slice_id s \<and> indexAfter row = currentIndex s \<and> valueAfter row = currentValue s)"

definition two_write_outcome :: "store \<Rightarrow> string \<Rightarrow> fault \<Rightarrow> store \<times> (error + slice) \<Rightarrow> bool" where
  "two_write_outcome db sid flt res =
     (case res of (db', r) \<Rightarrow>
        (isl r \<and> db' = db)
      \<or> (appended_one (sliceUpdates db) (sliceUpdates db')
          \<and> sliceComponents db' = sliceComponents db
          \<and> sliceComponentUpdates db' = sliceComponentUpdates db
          \<and> (case r of
                Inr s' \<Rightarrow> find_slice db' sid = Some s' \<and> audit_agrees (last (sliceUpdates db')) s'
              | Inl e \<Rightarrow> flt = FaultAt 2 \<and> e = PersistenceFault \<and> slices db' = slices db)))"

text \<open>How one operation behaves under each fault, told from its run without a fault.
  When that run succeeds with store \<open>db2\<close>, a fault at the read or at the first write leaves
  the store as it was, and a fault at the second write leaves \<open>db2\<close> with the slice rows
  of the old store: the new audit row beside the unchanged slice.\<close>

definition fault_behaviour ::
  "store \<Rightarrow> string \<Rightarrow> (fault \<Rightarrow> store \<times> (error + slice)) \<Rightarrow> bool" where
  "fault_behaviour db sid run =
     (case run NoFault of
        (db2, Inr s2) \<Rightarrow>
          run (FaultAt 0) = (db, Inl PersistenceFault)
          \<and> run (FaultAt 1) = (db, Inl PersistenceFault)
          \<and> run (FaultAt 2) = (db2\<lparr>slices := slices db\<rparr>, Inl PersistenceFault)
          \<and> appended_one (sliceUpdates db) (sliceUpdates db2)
          \<and> find_slice db2 sid = Some s2
          \<and> audit_agrees (last (sliceUpdates db2)) s2
      | (db2, Inl e) \<Rightarrow>
          db2 = db
          \<and> run (FaultAt 0) = (db, Inl PersistenceFault)
          \<and> fst (run (FaultAt 1)) = db
          \<and> run (FaultAt 2) = (db, Inl e))"

definition index_ok :: "slice \<Rightarrow> bool" where
  "index_ok s = (0 \<le> currentIndex s \<and> currentIndex s \<le> MAX_INDEX)"

definition keeps_index_range :: "store \<Rightarrow> store \<Rightarrow> bool" where
  "keeps_index_range db db' =
     list_all2 (\<lambda>s s'. slice_id s' = slice_id s \<and> isComposite s' = isComposite s
                        \<and> (index_ok s \<longrightarrow> index_ok s'))
       (slices db) (slices db')"

section \<open>A concrete store used in the examples\<close>

definition example_slice :: slice where
  "example_slice =
     \<lparr> slice_id = ''1'', slug = ''gym'',
       increaseType = ''linear'', increaseParams = Val (empty_params\<lparr>multiplier := Val 1\<rparr>),
       decreaseType = ''linear'', decreaseParams = Val (empty_params\<lparr>multiplier := Val 1\<rparr>),
       currentIndex = 5, currentValue = 2,
       temporalType = Some ''scheduled'', expectedTime = Some (9, 0), gracePeriod = Some 30,
       penaltyInterval = Some 15, penaltyAmount = Some (-1), maxInterval = None,
       resetDaily = False, isComposite = False \<rparr>"

definition example_store :: store where
  "example_store =
     \<lparr> slices = [example_slice], sliceUpdates = [], sliceComponents = [],
       sliceComponentUpdates = [] \<rparr>"

definition ten_oclock :: int where
  "ten_oclock = 36000000"

definition penalty_row :: "int \<Rightarrow> int \<Rightarrow> int \<Rightarrow> int \<Rightarrow> int \<Rightarrow> slice_update" where
  "penalty_row d vb va ib ia =
     \<lparr> sliceId = ''1'', delta = d, deltaType = ''steps'', valueBefore = vb,
       valueAfter = va, indexBefore = ib, indexAfter = ia, date = ten_oclock,
       update_notes = Some ''Scheduled penalty'', automatic = True \<rparr>"

definition example_slice_at :: "int \<Rightarrow> slice" where
  "example_slice_at i = example_slice\<lparr>currentIndex := i, currentValue := i\<rparr>"

definition store_after :: "slice \<Rightarrow> slice_update list \<Rightarrow> store" where
  "store_after s us = \<lparr> slices = [s], sliceUpdates = us, sliceComponents = [],
     sliceComponentUpdates = [] \<rparr>"

text \<open>A slice whose decrease formula is the exponential with base 2, at index 32.\<close>

definition steep_slice :: slice where
  "steep_slice =
     \<lparr> slice_id = ''1'', slug = ''gym'',
       increaseType = ''linear'', increaseParams = Val (empty_params\<lparr>multiplier := Val 1\<rparr>),
       decreaseType = ''exponential'', decreaseParams = Val (empty_params\<lparr>base := Val 2\<rparr>),
       currentIndex = 32, currentValue = 87,
       temporalType = Some ''manual'', expectedTime = None, gracePeriod = None,
       penaltyInterval = None, penaltyAmount = None, maxInterval = None,
       resetDaily = False, isComposite = False \<rparr>"

definition steep_store :: store where
  "steep_store =
     \<lparr> slices = [steep_slice], sliceUpdates = [], sliceComponents = [],
       sliceComponentUpdates = [] \<rparr>"

section \<open>A concrete composite slice used in the examples\<close>

definition hygiene_slice :: slice where
  "hygiene_slice =
     \<lparr> slice_id = ''h'', slug = ''hyg'',
       increaseType = ''linear'', increaseParams = Null,
       decreaseType = ''linear'', decreaseParams = Null,
       currentIndex = 0, currentValue = 0,
       temporalType = Some ''manual'', expectedTime = None, gracePeriod = None,
       penaltyInterval = None, penaltyAmount = None, maxInterval = None,
       resetDaily = False, isComposite = True \<rparr>"

definition hygiene_component ::
  "string \<Rightarrow> int \<Rightarrow> int \<Rightarrow> string \<Rightarrow> real \<Rightarrow> int option \<Rightarrow> slice_component" where
  "hygiene_component k w v dt rate lc =
     \<lparr> component_id = k, component_sliceId = ''h'', key = k, weight = w,
       component_currentValue = v, maxValue = 100, decayType = dt, decayRate = rate,
       lastChecked = lc \<rparr>"

definition hygiene_store :: store where
  "hygiene_store =
     \<lparr> slices = [hygiene_slice], sliceUpdates = [],
       sliceComponents =
         [hygiene_component ''teeth'' 30 100 ''daily'' 20 (Some 0),
          hygiene_component ''shower'' 25 100 ''daily'' 30 (Some 0),
          hygiene_component ''nails'' 20 100 ''weekly'' 10 (Some 0),
          hygiene_component ''haircut'' 15 100 ''weekly'' 5 (Some 0),
          hygiene_component ''shave'' 10 100 ''daily'' 15 (Some 0)],
       sliceComponentUpdates = [] \<rparr>"

text \<open>The hygiene slice with its five seeded weights, every component checked at time 0
  and holding the values 4, 48, 25, 44 and 12; beside them a component of another slice.\<close>

definition worn_store :: store where
  "worn_store =
     \<lparr> slices = [hygiene_slice, example_slice], sliceUpdates = [],
       sliceComponents =
         [hygiene_component ''teeth'' 30 4 ''daily'' 20 (Some 0),
          hygiene_component ''shower'' 25 48 ''daily'' 30 (Some 0),
          (hygiene_component ''laps'' 50 90 ''daily'' 10 (Some 0))\<lparr>component_sliceId := ''1''\<rparr>,
          hygiene_component ''nails'' 20 25 ''weekly'' 10 (Some 0),
          hygiene_component ''haircut'' 15 44 ''weekly'' 5 (Some 0),
          hygiene_component ''shave'' 10 12 ''daily'' 15 (Some 0)],
       sliceComponentUpdates = [] \<rparr>"

text \<open>The hygiene slice with a single component of weight 29 at its full value 100.\<close>

definition solo_store :: store where
  "solo_store =
     \<lparr> slices = [hygiene_slice], sliceUpdates = [],
       sliceComponents = [hygiene_component ''teeth'' 29 100 ''daily'' 20 (Some 0)],
       sliceComponentUpdates = [] \<rparr>"

section \<open>Relations between component rows before and after an operation\<close>

text \<open>How a check-off relates a component row before and after: the identifying fields stay,
  and \<open>lastChecked\<close> is the time of the call exactly on the rows whose id is in \<open>ids\<close>.\<close>

definition checked_off :: "int \<Rightarrow> string set \<Rightarrow> slice_component \<Rightarrow> slice_component \<Rightarrow> bool" where
  "checked_off now ids x x' =
     (key x' = key x \<and> component_id x' = component_id x
      \<and> component_sliceId x' = component_sliceId x \<and> maxValue x' = maxValue x
      \<and> lastChecked x' = (if component_id x \<in> ids then Some now else lastChecked x))"

definition same_but_value :: "slice_component \<Rightarrow> slice_component \<Rightarrow> bool" where
  "same_but_value x x' = (x' = x\<lparr>component_currentValue := component_currentValue x'\<rparr>)"

definition components_differ_only_in_value :: "store \<Rightarrow> store \<Rightarrow> bool" where
  "components_differ_only_in_value db db' =
     list_all2 same_but_value (sliceComponents db) (sliceComponents db')"

text \<open>The ids that a list of keys selects in the components read at the start.\<close>

definition selected_ids :: "slice_component list \<Rightarrow> string list \<Rightarrow> string set" where
  "selected_ids snapshot ks =
     {i. \<exists>k c. k \<in> set ks \<and> find (\<lambda>c. key c = k) snapshot = Some c \<and> i = component_id c}"

section \<open>Properties of doubles\<close>

lemma number_order_simps [simp]:
  "Finite m \<le> Finite n \<longleftrightarrow> m \<le> n"
  "Finite m < Finite n \<longleftrightarrow> m < n"
  "NegInfinity \<le> x" "x \<le> PosInfinity"
  "\<not> PosInfinity \<le> Finite n" "\<not> Finite n \<le> NegInfinity" "\<not> PosInfinity \<le> NegInfinity"
  "NegInfinity < Finite n" "Finite n < PosInfinity" "NegInfinity < PosInfinity"
  "\<not> x < NegInfinity" "\<not> PosInfinity < x"
  by (cases x; auto simp: less_eq_number_def less_number_def)+

lemma math_floor_mono: "v \<le> w \<Longrightarrow> math_floor v \<le> math_floor w"
  by (auto simp: math_floor_def floor_mono)

lemma math_floor_small [simp]: "\<bar>v\<bar> < 2 ^ 53 \<Longrightarrow> math_floor v = Finite \<lfloor>v\<rfloor>"
proof -
  assume a: "\<bar>v\<bar> < 2 ^ 53"
  have "(2::real) ^ 53 \<le> 2 ^ 1024" by (rule power_increasing) simp_all
  with a have "v < 2 ^ 1024" "- (2 ^ 1024) < v" by linarith+
  then show ?thesis by (simp add: math_floor_def)
qed

lemma round_half_even_of_int [simp]: "round_half_even (of_int k) = k"
  by (simp add: round_half_even_def)

lemma floor_log2_eq:
  assumes "0 < x" "2 powr of_int e \<le> x" "x < 2 powr (of_int e + 1)"
  shows "\<lfloor>log 2 x\<rfloor> = e"
proof -
  have "of_int e \<le> log 2 x" using assms by (simp add: le_log_iff)
  moreover have "log 2 x < of_int e + 1" using assms by (simp add: log_less_iff)
  ultimately show ?thesis by (simp add: floor_eq_iff)
qed

lemma rnd_scaled:
  assumes lo: "2 ^ 52 \<le> \<bar>x\<bar> * 2 ^ s" and hi: "\<bar>x\<bar> * 2 ^ s < 2 ^ 53" and s: "s \<le> 1074"
  shows "rnd x = of_int (round_half_even (x * 2 ^ s)) / 2 ^ s"
proof -
  have x: "x \<noteq> 0" using lo by auto
  define e :: int where "e = 52 - int s"
  have p: "(2::real) powr of_int e = 2 ^ 52 / 2 ^ s"
    by (simp add: e_def powr_diff powr_realpow powr_numeral)
  have p1: "(2::real) powr (of_int e + 1) = 2 ^ 53 / 2 ^ s"
    by (simp add: powr_add p)
  have "2 powr of_int e \<le> \<bar>x\<bar>" unfolding p using lo by (simp add: field_simps)
  moreover have "\<bar>x\<bar> < 2 powr (of_int e + 1)" unfolding p1 using hi by (simp add: field_simps)
  ultimately have "\<lfloor>log 2 \<bar>x\<bar>\<rfloor> = e" using x by (intro floor_log2_eq) simp_all
  moreover have "- 1022 \<le> e" using s by (simp add: e_def)
  ultimately have "spacing x = 2 powr (of_int e - 52)" by (simp add: spacing_def max_def)
  also have "\<dots> = 1 / 2 ^ s"
    by (simp add: e_def powr_minus powr_realpow divide_simps)
  finally show ?thesis using x by (simp add: rnd_def)
qed

lemma rnd_of_int:
  assumes "\<bar>n\<bar> < 2 ^ 53"
  shows "rnd (of_int n) = of_int n"
proof (cases "n = 0")
  case True
  then show ?thesis by (simp add: rnd_def)
next
  case False
  define x :: real where "x = \<bar>of_int n\<bar>"
  have x1: "1 \<le> x" using False by (simp add: x_def)
  have x2: "x < 2 ^ 53" using assms unfolding x_def
    by (metis of_int_abs of_int_less_numeral_power_cancel_iff)
  define e where "e = \<lfloor>log 2 x\<rfloor>"
  have e0: "0 \<le> e" using x1 by (simp add: e_def)
  have "log 2 x < 53" using x1 x2 by (simp add: log_less_iff powr_realpow)
  then have e52: "e \<le> 52" unfolding e_def by linarith
  define s where "s = nat (52 - e)"
  have se: "int s = 52 - e" using e52 by (simp add: s_def)
  have le: "2 powr of_int e \<le> x"
    using x1 by (simp add: e_def flip: le_log_iff)
  have lt: "x < 2 powr (of_int e + 1)"
    using x1 by (simp add: e_def flip: log_less_iff)
  have pe: "(2::real) powr of_int e * 2 ^ s = 2 ^ 52"
  proof -
    have "(2::real) powr of_int e * 2 ^ s = 2 powr of_int e * 2 powr real s"
      by (simp add: powr_realpow)
    also have "\<dots> = 2 powr (of_int e + real s)" by (simp add: powr_add)
    also have "of_int e + real s = (52::real)" using se by linarith
    finally show ?thesis by (simp add: powr_numeral)
  qed
  have pe1: "(2::real) powr (of_int e + 1) * 2 ^ s = 2 ^ 53"
  proof -
    have "(2::real) powr (of_int e + 1) * 2 ^ s = 2 * (2 powr of_int e * 2 ^ s)"
      by (simp add: powr_add)
    then show ?thesis unfolding pe by simp
  qed
  have a: "2 ^ 52 \<le> \<bar>of_int n :: real\<bar> * 2 ^ s"
    using le pe unfolding x_def by (metis mult_right_mono zero_le_numeral zero_le_power)
  have b: "\<bar>of_int n :: real\<bar> * 2 ^ s < 2 ^ 53"
    using lt pe1 unfolding x_def by (metis mult_strict_right_mono zero_less_numeral zero_less_power)
  have "s \<le> 1074" using e0 by (simp add: s_def)
  have c: "real_of_int n * 2 ^ s = of_int (n * 2 ^ s)" by simp
  have "rnd (of_int n) = of_int (round_half_even (real_of_int n * 2 ^ s)) / 2 ^ s"
    using rnd_scaled[OF a b \<open>s \<le> 1074\<close>] .
  also have "\<dots> = of_int (n * 2 ^ s) / 2 ^ s"
    unfolding c round_half_even_of_int ..
  finally show ?thesis by simp
qed

lemma rnd_numeral [simp]: "numeral k < (2::int) ^ 53 \<Longrightarrow> rnd (numeral k) = numeral k"
  using rnd_of_int[of "numeral k"] by simp

lemma rnd_0 [simp]: "rnd 0 = 0" by (simp add: rnd_def)

lemma rnd_1 [simp]: "rnd 1 = 1" using rnd_of_int[of 1] by simp

lemma rnd_eq:
  "2 ^ 52 \<le> \<bar>x\<bar> * 2 ^ s \<Longrightarrow> \<bar>x\<bar> * 2 ^ s < 2 ^ 53 \<Longrightarrow> s \<le> 1074 \<Longrightarrow>
   round_half_even (x * 2 ^ s) = n \<Longrightarrow> rnd x = of_int n / 2 ^ s"
  by (simp add: rnd_scaled)

text \<open>Rounding a given real: away from a tie, and at a tie.\<close>

lemma round_half_even_near:
  assumes "\<bar>y - of_int n\<bar> < 1 / 2"
  shows "round_half_even y = n"
proof (cases "of_int n \<le> y")
  case True
  then have "\<lfloor>y\<rfloor> = n" using assms by (simp add: floor_eq_iff abs_less_iff)
  then show ?thesis using assms True by (simp add: round_half_even_def Let_def abs_less_iff)
next
  case False
  then have "\<lfloor>y\<rfloor> = n - 1" using assms by (simp add: floor_eq_iff abs_less_iff)
  then show ?thesis using assms False by (simp add: round_half_even_def Let_def abs_less_iff)
qed

lemma round_half_even_tie:
  "round_half_even (of_int k + 1 / 2) = (if even k then k else k + 1)"
proof -
  have "\<lfloor>of_int k + (1::real) / 2\<rfloor> = k" by (simp add: floor_eq_iff)
  then show ?thesis by (simp add: round_half_even_def Let_def)
qed

lemma rnd_near:
  "2 ^ 52 \<le> \<bar>x\<bar> * 2 ^ s \<Longrightarrow> \<bar>x\<bar> * 2 ^ s < 2 ^ 53 \<Longrightarrow> s \<le> 1074 \<Longrightarrow>
   \<bar>x * 2 ^ s - of_int n\<bar> < 1 / 2 \<Longrightarrow> rnd x = of_int n / 2 ^ s"
  by (rule rnd_eq) (simp_all add: round_half_even_near)

lemma rnd_tie_down:
  assumes "2 ^ 52 \<le> \<bar>x\<bar> * 2 ^ s" "\<bar>x\<bar> * 2 ^ s < 2 ^ 53" "s \<le> 1074"
    and "x * 2 ^ s = of_int n + 1 / 2" "even n"
  shows "rnd x = of_int n / 2 ^ s"
  using assms(1-3) by (rule rnd_eq) (simp add: assms(4,5) round_half_even_tie)

lemma rnd_tie_up:
  assumes "2 ^ 52 \<le> \<bar>x\<bar> * 2 ^ s" "\<bar>x\<bar> * 2 ^ s < 2 ^ 53" "s \<le> 1074"
    and "x * 2 ^ s = of_int n - 1 / 2" "even n"
  shows "rnd x = of_int n / 2 ^ s"
proof -
  have "x * 2 ^ s = of_int (n - 1) + 1 / 2" using assms(4) by simp
  moreover have "odd (n - 1)" using assms(5) by simp
  ultimately have "round_half_even (x * 2 ^ s) = n"
    by (simp only: round_half_even_tie) simp
  with assms(1-3) show ?thesis by (rule rnd_eq)
qed

section \<open>Properties of the formula engine\<close>

declare binarySearchLoop.simps [simp del] linearSearchLoop.simps [simp del]

lemma empty_params_fields [simp]:
  "multiplier empty_params = Undefined" "base empty_params = Undefined"
  "offset empty_params = Undefined" "max_param empty_params = Undefined"
  "k_param empty_params = Undefined" "inflection empty_params = Undefined"
  by (simp_all add: empty_params_def)

lemma opt_field_default [simp]:
  "opt_field (default_param ps empty_params) f d = opt_field ps f d"
  if "f empty_params = Undefined"
  using that by (cases ps) (simp_all add: opt_field_def default_param_def nullish_def)

lemma binarySearchLoop_done:
  "\<not> left \<le> right \<Longrightarrow> binarySearchLoop config t left right ci cd = ci"
  by (subst binarySearchLoop.simps) simp

lemma binarySearchLoop_found:
  "left \<le> right \<Longrightarrow> mid = (left + right) div 2 \<Longrightarrow> calculateValue config mid = t \<Longrightarrow>
   binarySearchLoop config t left right ci cd = mid"
  by (subst binarySearchLoop.simps) (simp add: Let_def)

lemma binarySearchLoop_right:
  "left \<le> right \<Longrightarrow> mid = (left + right) div 2 \<Longrightarrow> calculateValue config mid < t \<Longrightarrow>
   binarySearchLoop config t left right ci cd =
     binarySearchLoop config t (mid + 1) right
       (if diff_less (abs_diff (calculateValue config mid) t) cd then mid else ci)
       (if diff_less (abs_diff (calculateValue config mid) t) cd
        then abs_diff (calculateValue config mid) t else cd)"
  by (subst binarySearchLoop.simps) (simp add: Let_def)

lemma binarySearchLoop_left:
  "left \<le> right \<Longrightarrow> mid = (left + right) div 2 \<Longrightarrow> t < calculateValue config mid \<Longrightarrow>
   binarySearchLoop config t left right ci cd =
     binarySearchLoop config t left (mid - 1)
       (if diff_less (abs_diff (calculateValue config mid) t) cd then mid else ci)
       (if diff_less (abs_diff (calculateValue config mid) t) cd
        then abs_diff (calculateValue config mid) t else cd)"
proof -
  assume a: "left \<le> right" "mid = (left + right) div 2" "t < calculateValue config mid"
  then have "\<not> calculateValue config mid < t" by (simp add: not_less less_imp_le)
  with a show ?thesis by (subst binarySearchLoop.simps) (simp add: Let_def)
qed

lemma binarySearchLoop_range:
  "lo \<le> left \<Longrightarrow> right \<le> hi \<Longrightarrow> ci \<in> {lo..hi} \<Longrightarrow>
   binarySearchLoop config t left right ci cd \<in> {lo..hi}"
proof (induction config t left right ci cd rule: binarySearchLoop.induct)
  case (1 config t left right ci cd)
  show ?case
  proof (cases "left \<le> right")
    case False
    with "1.prems" show ?thesis by (simp add: binarySearchLoop_done)
  next
    case True
    define mid where "mid = (left + right) div 2"
    have mid: "left \<le> mid" "mid \<le> right" using True by (auto simp: mid_def)
    have ci': "(if diff_less (abs_diff (calculateValue config mid) t) cd then mid else ci) \<in> {lo..hi}"
      using mid "1.prems" by simp
    note IH1 = "1.IH"(1)[OF True mid_def refl refl refl refl]
    note IH2 = "1.IH"(2)[OF True mid_def refl refl refl refl]
    consider (lt) "calculateValue config mid < t" | (gt) "t < calculateValue config mid"
      | (eq) "calculateValue config mid = t" using less_linear by blast
    then show ?thesis
    proof cases
      case lt
      have lo': "lo \<le> mid + 1" using mid "1.prems" by simp
      show ?thesis
        unfolding binarySearchLoop_right[OF True mid_def lt]
        by (rule IH1[OF lt lo' "1.prems"(2) ci'])
    next
      case gt
      have hi': "mid - 1 \<le> hi" using mid "1.prems" by simp
      have ngt: "\<not> calculateValue config mid < t" using gt by (simp add: not_less less_imp_le)
      show ?thesis
        unfolding binarySearchLoop_left[OF True mid_def gt]
        by (rule IH2[OF ngt gt "1.prems"(1) hi' ci'])
    next
      case eq
      show ?thesis
        unfolding binarySearchLoop_found[OF True mid_def eq]
        using mid "1.prems" by simp
    qed
  qed
qed

lemma linearSearchLoop_range:
  "0 \<le> i \<Longrightarrow> closestIndex \<in> {0..max 0 maxIndex} \<Longrightarrow>
   linearSearchLoop config t maxIndex i closestIndex closestDiff \<in> {0..max 0 maxIndex}"
proof (induction config t maxIndex i closestIndex closestDiff rule: linearSearchLoop.induct)
  case (1 config t maxIndex i ci cd)
  show ?case
    using "1.prems" "1.IH"(1)[OF _ refl refl] "1.IH"(2)[OF _ refl refl]
    by (subst linearSearchLoop.simps) (auto simp: Let_def)
qed

lemma binarySearchLoop_exact:
  assumes "\<forall>i j. lo \<le> i \<and> i \<le> j \<and> j \<le> hi \<longrightarrow> calculateValue config i \<le> calculateValue config j"
    and "lo \<le> left" "right \<le> hi" "left \<le> n" "n \<le> right" "calculateValue config n = t"
  shows "calculateValue config (binarySearchLoop config t left right ci cd) = t"
  using assms
proof (induction config t left right ci cd rule: binarySearchLoop.induct)
  case (1 config t left right ci cd)
  have True: "left \<le> right" using "1.prems" by simp
  define mid where "mid = (left + right) div 2"
  have mid: "left \<le> mid" "mid \<le> right" using True by (auto simp: mid_def)
  note IH1 = "1.IH"(1)[OF True mid_def refl refl refl refl]
  note IH2 = "1.IH"(2)[OF True mid_def refl refl refl refl]
  have mono: "\<And>i j. lo \<le> i \<Longrightarrow> i \<le> j \<Longrightarrow> j \<le> hi \<Longrightarrow> calculateValue config i \<le> calculateValue config j"
    using "1.prems"(1) by blast
  consider (lt) "calculateValue config mid < t" | (gt) "t < calculateValue config mid"
    | (eq) "calculateValue config mid = t" using less_linear by blast
  then show ?case
  proof cases
    case lt
    have "mid < n"
    proof (rule ccontr)
      assume "\<not> mid < n"
      then have "calculateValue config n \<le> calculateValue config mid"
        using mono[of n mid] "1.prems" mid by simp
      with lt "1.prems" show False by simp
    qed
    then have n': "mid + 1 \<le> n" by simp
    have lo': "lo \<le> mid + 1" using mid "1.prems" by simp
    show ?thesis
      unfolding binarySearchLoop_right[OF True mid_def lt]
      by (rule IH1[OF lt "1.prems"(1) lo' "1.prems"(3) n' "1.prems"(5) "1.prems"(6)])
  next
    case gt
    have "n < mid"
    proof (rule ccontr)
      assume "\<not> n < mid"
      then have "calculateValue config mid \<le> calculateValue config n"
        using mono[of mid n] "1.prems" mid by simp
      with gt "1.prems" show False by simp
    qed
    then have n': "n \<le> mid - 1" by simp
    have hi': "mid - 1 \<le> hi" using mid "1.prems" by simp
    have ngt: "\<not> calculateValue config mid < t" using gt by (simp add: not_less less_imp_le)
    show ?thesis
      unfolding binarySearchLoop_left[OF True mid_def gt]
      by (rule IH2[OF ngt gt "1.prems"(1,2) hi' "1.prems"(4) n' "1.prems"(6)])
  next
    case eq
    show ?thesis
      unfolding binarySearchLoop_found[OF True mid_def eq] by (rule eq)
  qed
qed


lemma strict_field_Inr:
  "strict_field ps f d = Inr v \<Longrightarrow> opt_field ps f d = v"
  by (cases ps) (simp_all add: strict_field_def opt_field_def)

lemma calculateValue_nonneg_index:
  "0 \<le> i \<Longrightarrow>
   calculateValue config i =
     (case formula_value (type config) (default_param (params config) empty_params) i of
        Inr v \<Rightarrow> math_floor v | Inl e \<Rightarrow> Finite 0)"
  by (simp add: calculateValue_def Let_def)

lemma calculateLinear_mono:
  "0 \<le> opt_field ps multiplier 1 \<Longrightarrow> i \<le> j \<Longrightarrow> calculateLinear i ps \<le> calculateLinear j ps"
  by (simp add: calculateLinear_def mult_left_mono)

lemma calculateSqrt_mono:
  "0 \<le> opt_field ps multiplier 1 \<Longrightarrow> i \<le> j \<Longrightarrow> calculateSqrt i ps \<le> calculateSqrt j ps"
  by (simp add: calculateSqrt_def mult_left_mono)

lemma calculateLogarithmic_mono:
  "0 \<le> opt_field ps multiplier 10 \<Longrightarrow> 0 \<le> i \<Longrightarrow> i \<le> j \<Longrightarrow>
   calculateLogarithmic i ps \<le> calculateLogarithmic j ps"
  by (simp add: calculateLogarithmic_def mult_left_mono)

lemma calculateExponential_mono:
  "1 \<le> opt_field ps base 2 \<Longrightarrow> 0 \<le> i \<Longrightarrow> i \<le> j \<Longrightarrow>
   \<exists>v w. calculateExponential i ps = Inr v \<and> calculateExponential j ps = Inr w \<and> v \<le> w"
  by (simp add: calculateExponential_def Let_def power_increasing)

lemma calculateSigmoid_mono:
  assumes "0 \<le> opt_field ps max_param 100" "0 \<le> opt_field ps k_param (2 / 10)" "i \<le> j"
  shows "calculateSigmoid i ps \<le> calculateSigmoid j ps"
proof -
  define M where "M = opt_field ps max_param 100"
  define K where "K = opt_field ps k_param (2 / 10)"
  define c where "c = opt_field ps inflection 15"
  have "K * (real_of_int i - c) \<le> K * (real_of_int j - c)"
    using assms by (simp add: K_def mult_left_mono)
  then have "exp (- K * (real_of_int j - c)) \<le> exp (- K * (real_of_int i - c))"
    by simp
  then have "1 + exp (- K * (real_of_int j - c)) \<le> 1 + exp (- K * (real_of_int i - c))"
    by simp
  moreover have "0 < 1 + exp (- K * (real_of_int j - c))"
    by (simp add: add_pos_pos)
  ultimately have "M / (1 + exp (- K * (real_of_int i - c))) \<le> M / (1 + exp (- K * (real_of_int j - c)))"
    using assms(1) by (intro divide_left_mono) (simp_all add: M_def add_pos_pos)
  then show ?thesis
    by (simp add: calculateSigmoid_def M_def K_def c_def)
qed

lemma calculateValue_mono:
  assumes mono: "isMonotonicIncreasing config = Inr True"
    and sig: "type config = ''sigmoid'' \<longrightarrow>
               0 \<le> opt_field (params config) max_param 100 \<and> 0 \<le> opt_field (params config) k_param (2 / 10)"
    and ij: "0 \<le> i" "i \<le> j"
  shows "calculateValue config i \<le> calculateValue config j"
proof -
  define ps where "ps = default_param (params config) empty_params"
  have j: "0 \<le> j" using ij by simp
  have cv: "\<And>x. 0 \<le> x \<Longrightarrow> calculateValue config x =
      (case formula_value (type config) ps x of Inr v \<Rightarrow> math_floor v | Inl e \<Rightarrow> Finite 0)"
    by (simp add: calculateValue_nonneg_index ps_def)
  have fields: "opt_field ps max_param 100 = opt_field (params config) max_param 100"
    "opt_field ps k_param (2 / 10) = opt_field (params config) k_param (2 / 10)"
    by (simp_all add: ps_def)
  consider (lin) "type config = ''linear''" | (ex) "type config = ''exponential''"
    | (sq) "type config = ''sqrt''" | (lg) "type config = ''logarithmic''"
    | (sg) "type config = ''sigmoid''"
    | (other) "type config \<notin> {''linear'', ''exponential'', ''sqrt'', ''logarithmic'', ''sigmoid''}"
    by auto
  then show ?thesis
  proof cases
    case lin
    from mono lin have "0 \<le> opt_field ps multiplier 1"
      by (auto simp: isMonotonicIncreasing_def Let_def ps_def[symmetric] map_sum_def
               split: sum.splits dest: strict_field_Inr)
    then show ?thesis
      using lin ij j by (simp add: cv formula_value_def math_floor_mono calculateLinear_mono)
  next
    case ex
    from mono ex have "1 \<le> opt_field ps base 2"
      by (auto simp: isMonotonicIncreasing_def Let_def ps_def[symmetric] map_sum_def
               split: sum.splits dest: strict_field_Inr)
    from calculateExponential_mono[OF this ij] obtain v w where
      "calculateExponential i ps = Inr v" "calculateExponential j ps = Inr w" "v \<le> w" by blast
    then show ?thesis
      using ex ij j by (simp add: cv formula_value_def math_floor_mono)
  next
    case sq
    from mono sq have "0 \<le> opt_field ps multiplier 1"
      by (auto simp: isMonotonicIncreasing_def Let_def ps_def[symmetric] map_sum_def
               split: sum.splits dest: strict_field_Inr)
    then show ?thesis
      using sq ij j by (simp add: cv formula_value_def math_floor_mono calculateSqrt_mono)
  next
    case lg
    from mono lg have "0 \<le> opt_field ps multiplier 10"
      by (auto simp: isMonotonicIncreasing_def Let_def ps_def[symmetric] map_sum_def
               split: sum.splits dest: strict_field_Inr)
    then show ?thesis
      using lg ij j by (simp add: cv formula_value_def math_floor_mono calculateLogarithmic_mono)
  next
    case sg
    with sig fields have "0 \<le> opt_field ps max_param 100" "0 \<le> opt_field ps k_param (2 / 10)"
      by simp_all
    then show ?thesis
      using sg ij j by (simp add: cv formula_value_def math_floor_mono calculateSigmoid_mono)
  next
    case other
    with mono show ?thesis
      by (simp add: isMonotonicIncreasing_def Let_def)
  qed
qed


lemma calculateValue_linear [simp]:
  "calculateValue (linear_config m b) i = math_floor (m * real_of_int (max 0 i) + b)"
  by (simp add: calculateValue_def linear_config_def formula_value_def calculateLinear_def
      opt_field_def default_param_def nullish_def empty_params_def max_def)

lemma calculateValue_exponential [simp]:
  "calculateValue (exponential_config b) i = (if b \<le> 0 then Finite 0 else math_floor (b ^ nat i))"
  by (simp add: calculateValue_def exponential_config_def formula_value_def calculateExponential_def
      opt_field_def default_param_def nullish_def empty_params_def)

lemma isMonotonicIncreasing_linear [simp]:
  "isMonotonicIncreasing (linear_config m b) = Inr (0 \<le> m)"
  by (simp add: isMonotonicIncreasing_def linear_config_def strict_field_def
      default_param_def nullish_def empty_params_def)





lemma number_diff_simps [simp]:
  "diff_less (Some (Finite a)) (Some (Finite b)) \<longleftrightarrow> a < b"
  by simp

text \<open>
  Claim C10.  Without a \<open>maxIndex\<close> argument \<open>findClosestIndex\<close> searches up to 1000, which
  is not the limit \<open>MAX_INDEX\<close> = 10000 of the update engine: for the identity sequence and
  target 5000 the default search stops at 1000 while the search up to \<open>MAX_INDEX\<close> finds 5000.
\<close>

theorem findClosestIndex_default_maxIndex:
  "findClosestIndex config target None = findClosestIndex config target (Some 1000)
   \<and> MAX_INDEX = 10000
   \<and> findClosestIndex (linear_config 1 0) (Finite 5000) None = Inr 1000
   \<and> findClosestIndex (linear_config 1 0) (Finite 5000) (Some MAX_INDEX) = Inr 5000"
  by (simp add: findClosestIndex_def MAX_INDEX_def binarySearchIndex_def
      binarySearchLoop.simps Let_def)

lemma type_example_configs [simp]:
  "type (linear_config m b) = ''linear''"
  "type (exponential_config b) = ''exponential''"
  "type (sigmoid_config m kk c) = ''sigmoid''"
  by (simp_all add: linear_config_def exponential_config_def sigmoid_config_def)

lemma isMonotonicIncreasing_sigmoid [simp]:
  "isMonotonicIncreasing (sigmoid_config m kk c) = Inr True"
  by (simp add: isMonotonicIncreasing_def sigmoid_config_def)

lemma calculateValue_sigmoid [simp]:
  "calculateValue (sigmoid_config m kk c) i =
     math_floor (m / (1 + exp (- kk * (real_of_int (max 0 i) - c))))"
  by (simp add: calculateValue_def sigmoid_config_def formula_value_def calculateSigmoid_def
      opt_field_def default_param_def nullish_def empty_params_def max_def)

lemma sigmoid_falling_value: "math_floor (100 / (1 + exp (1::real))) < Finite 50"
proof -
  have "(1::real) < exp 1" by simp
  then have "100 < 50 * (1 + exp (1::real))" by simp
  moreover have p: "0 < 1 + exp (1::real)" by (simp add: add_pos_pos)
  ultimately have lt: "100 / (1 + exp (1::real)) < 50" by (simp add: pos_divide_less_eq)
  have ge: "0 \<le> 100 / (1 + exp (1::real))" using p by simp
  have "\<bar>100 / (1 + exp (1::real))\<bar> < 2 ^ 53" using lt ge by simp
  then have "math_floor (100 / (1 + exp (1::real))) = Finite \<lfloor>100 / (1 + exp (1::real))\<rfloor>"
    by (rule math_floor_small)
  moreover have "\<lfloor>100 / (1 + exp (1::real))\<rfloor> < 50" using lt by (simp add: floor_less_iff)
  ultimately show ?thesis by simp
qed

text \<open>
  Claim C5, as stated, fails.  The linear configuration with multiplier 1 and offset -5 is
  monotonic; its value at index 3 is -2, and the search for -2 in [0, 10] returns index 0,
  whose value is -5, because every target \<open>\<le> 0\<close> is answered with index 0.
  A sigmoid with negative \<open>k\<close> is treated as monotonic although it falls: searching [0, 1]
  for its value at index 1 returns index 0, whose value 50 is not the target.
  With null parameters the monotonicity test of a linear configuration raises a TypeError.
\<close>

theorem findClosestIndex_roundtrip_counterexample:
  "isMonotonicIncreasing (linear_config 1 (-5)) = Inr True
   \<and> calculateValue (linear_config 1 (-5)) 3 = Finite (-2)
   \<and> findClosestIndex (linear_config 1 (-5)) (calculateValue (linear_config 1 (-5)) 3) (Some 10) = Inr 0
   \<and> calculateValue (linear_config 1 (-5)) 0 = Finite (-5)
   \<and> isMonotonicIncreasing (sigmoid_config 100 (-1) 0) = Inr True
   \<and> findClosestIndex (sigmoid_config 100 (-1) 0) (calculateValue (sigmoid_config 100 (-1) 0) 1) (Some 1) = Inr 0
   \<and> calculateValue (sigmoid_config 100 (-1) 0) 0 = Finite 50
   \<and> calculateValue (sigmoid_config 100 (-1) 0) 1 < Finite 50
   \<and> calculateValue \<lparr> type = ''linear'', params = Null \<rparr> 3 = Finite 3
   \<and> findClosestIndex \<lparr> type = ''linear'', params = Null \<rparr>
        (calculateValue \<lparr> type = ''linear'', params = Null \<rparr> 3) (Some 10) = Inl TypeError"
proof -
  have lin: "findClosestIndex (linear_config 1 (-5)) (calculateValue (linear_config 1 (-5)) 3) (Some 10) = Inr 0"
    by (simp add: findClosestIndex_def)
  have v1: "calculateValue (sigmoid_config 100 (-1) 0) 1 < Finite 50"
    using sigmoid_falling_value by simp
  have v0: "calculateValue (sigmoid_config 100 (-1) 0) 0 = Finite 50" by simp
  have sg: "findClosestIndex (sigmoid_config 100 (-1) 0) (calculateValue (sigmoid_config 100 (-1) 0) 1) (Some 1) = Inr 0"
  proof (cases "calculateValue (sigmoid_config 100 (-1) 0) 1 \<le> Finite 0")
    case True
    then show ?thesis by (simp add: findClosestIndex_def del: calculateValue_sigmoid)
  next
    case False
    define S where "S = sigmoid_config 100 (-1) 0"
    define T where "T = calculateValue S 1"
    have gt: "T < calculateValue S 0"
      using v1 v0 by (simp add: S_def T_def del: calculateValue_sigmoid)
    have m: "(0::int) = (0 + 1) div 2" by simp
    have "binarySearchLoop S T 0 1 0 cd = 0" for cd
    proof -
      have "binarySearchLoop S T 0 1 0 cd =
              binarySearchLoop S T 0 (0 - 1)
                (if diff_less (abs_diff (calculateValue S 0) T) cd then 0 else 0)
                (if diff_less (abs_diff (calculateValue S 0) T) cd
                 then abs_diff (calculateValue S 0) T else cd)"
        by (rule binarySearchLoop_left[OF _ m gt]) simp
      also have "\<dots> = (if diff_less (abs_diff (calculateValue S 0) T) cd then 0 else 0)"
        by (rule binarySearchLoop_done) simp
      finally show ?thesis by simp
    qed
    then have "binarySearchLoop (sigmoid_config 100 (-1) 0)
        (calculateValue (sigmoid_config 100 (-1) 0) 1) 0 1 0 cd = 0" for cd
      by (simp add: S_def T_def del: calculateValue_sigmoid)
    with False show ?thesis
      by (simp add: findClosestIndex_def binarySearchIndex_def del: calculateValue_sigmoid)
  qed
  have nl: "calculateValue \<lparr> type = ''linear'', params = Null \<rparr> 3 = Finite 3"
    by (simp add: calculateValue_def formula_value_def calculateLinear_def opt_field_def default_param_def)
  have nl2: "findClosestIndex \<lparr> type = ''linear'', params = Null \<rparr> (Finite 3) (Some 10) = Inl TypeError"
    by (simp add: findClosestIndex_def isMonotonicIncreasing_def strict_field_def default_param_def)
  show ?thesis
    using lin v1 v0 sg nl nl2 by (simp del: calculateValue_sigmoid)
qed

text \<open>
  Claim C5, amended.  For a configuration that \<open>isMonotonicIncreasing\<close> accepts (a sigmoid
  only with \<open>max \<ge> 0\<close> and \<open>k \<ge> 0\<close>), every index \<open>n\<close> in [0, maxIndex] whose value is
  positive is found again up to its value: \<open>findClosestIndex\<close> returns an index in
  [0, maxIndex] with exactly the value at \<open>n\<close>.  For every configuration and every
  \<open>maxIndex\<close>, a target \<open>\<le> 0\<close> is answered with index 0.
\<close>

theorem findClosestIndex_roundtrip:
  "(isMonotonicIncreasing config = Inr True
     \<and> (type config = ''sigmoid'' \<longrightarrow>
          0 \<le> opt_field (params config) max_param 100 \<and> 0 \<le> opt_field (params config) k_param (2 / 10))
     \<and> 0 \<le> n \<and> n \<le> maxIndex \<and> Finite 0 < calculateValue config n
    \<longrightarrow> (\<exists>r. findClosestIndex config (calculateValue config n) (Some maxIndex) = Inr r
             \<and> 0 \<le> r \<and> r \<le> maxIndex
             \<and> calculateValue config r = calculateValue config n))
   \<and> (target \<le> Finite 0 \<longrightarrow> findClosestIndex config target maxIndexArg = Inr 0)"
proof (intro conjI impI)
  assume "target \<le> Finite 0"
  then show "findClosestIndex config target maxIndexArg = Inr 0"
    by (simp add: findClosestIndex_def)
next
  assume a: "isMonotonicIncreasing config = Inr True
     \<and> (type config = ''sigmoid'' \<longrightarrow>
          0 \<le> opt_field (params config) max_param 100 \<and> 0 \<le> opt_field (params config) k_param (2 / 10))
     \<and> 0 \<le> n \<and> n \<le> maxIndex \<and> Finite 0 < calculateValue config n"
  define t where "t = calculateValue config n"
  define r where "r = binarySearchIndex config t 0 maxIndex"
  have mono: "\<forall>i j. 0 \<le> i \<and> i \<le> j \<and> j \<le> maxIndex \<longrightarrow> calculateValue config i \<le> calculateValue config j"
    using a calculateValue_mono[of config] by blast
  have pos: "\<not> t \<le> Finite 0" using a by (simp add: t_def not_le)
  have found: "findClosestIndex config t (Some maxIndex) = Inr r"
    using a pos by (simp add: findClosestIndex_def r_def)
  have "r \<in> {0..maxIndex}"
    unfolding r_def binarySearchIndex_def
    using a by (intro binarySearchLoop_range) simp_all
  moreover have "calculateValue config r = t"
    unfolding r_def binarySearchIndex_def
    using a by (intro binarySearchLoop_exact[OF mono, of 0 maxIndex n]) (simp_all add: t_def)
  ultimately show "\<exists>r. findClosestIndex config (calculateValue config n) (Some maxIndex) = Inr r
             \<and> 0 \<le> r \<and> r \<le> maxIndex
             \<and> calculateValue config r = calculateValue config n"
    using found by (auto simp: t_def)
qed

theorem findClosestIndex_roundtrip_witness:
  "findClosestIndex (linear_config 5 0) (calculateValue (linear_config 5 0) 2) (Some 1000) = Inr 2
   \<and> findClosestIndex (linear_config 5 0) (Finite 0) None = Inr 0"
proof -
  have "findClosestIndex (linear_config 5 0) (Finite 10) (Some 1000) = Inr 2"
    by (simp add: findClosestIndex_def binarySearchIndex_def binarySearchLoop.simps Let_def)
  moreover have "isMonotonicIncreasing (linear_config 5 0) = Inr True
     \<and> (type (linear_config 5 0) = ''sigmoid'' \<longrightarrow>
          0 \<le> opt_field (params (linear_config 5 0)) max_param 100
          \<and> 0 \<le> opt_field (params (linear_config 5 0)) k_param (2 / 10))
     \<and> (0::int) \<le> 2 \<and> (2::int) \<le> 1000 \<and> Finite 0 < calculateValue (linear_config 5 0) 2"
    by simp
  ultimately show ?thesis
    using findClosestIndex_roundtrip[of "linear_config 5 0" 2 1000 "Finite 0" None] by simp
qed

section \<open>Properties of the update engine\<close>

lemma find_map_preserved:
  "(\<And>x. P (g x) = P x) \<Longrightarrow> find P (map g xs) = map_option g (find P xs)"
  by (induction xs) simp_all

lemma find_slice_update_slice_row:
  assumes "\<And>r. slice_id (f r) = slice_id r"
  shows "find_slice (update_slice_row db sid f) sid' =
         map_option (\<lambda>s. if slice_id s = sid then f s else s) (find_slice db sid')"
proof -
  have "find (\<lambda>s. slice_id s = sid') (map (\<lambda>s. if slice_id s = sid then f s else s) (slices db))
        = map_option (\<lambda>s. if slice_id s = sid then f s else s) (find (\<lambda>s. slice_id s = sid') (slices db))"
    by (rule find_map_preserved) (simp add: assms)
  then show ?thesis by (simp add: find_slice_def update_slice_row_def)
qed

lemma find_slice_id: "find_slice db sid = Some s \<Longrightarrow> slice_id s = sid"
  by (auto simp: find_slice_def find_Some_iff)

lemma find_slice_create_slice_update [simp]:
  "find_slice (create_slice_update db row) sid = find_slice db sid"
  by (simp add: find_slice_def create_slice_update_def)

text \<open>What the two writes of \<open>write_update\<close> leave behind, fault by fault.\<close>

lemma write_update_no_fault:
  assumes "find_slice db sid = Some s" "flt \<noteq> FaultAt 1" "flt \<noteq> FaultAt 2"
    and "create_accepted s d newIndex newValue"
  shows "write_update db flt now s d dt newIndex newValue nts auto =
     (update_slice_row
        (create_slice_update db
           \<lparr> sliceId = sid, delta = d, deltaType = dt,
             valueBefore = currentValue s, valueAfter = stored newValue,
             indexBefore = currentIndex s, indexAfter = newIndex,
             date = now, update_notes = nts, automatic = auto \<rparr>)
        sid (\<lambda>r. r\<lparr>currentIndex := newIndex, currentValue := stored newValue\<rparr>),
      Inr (s\<lparr>currentIndex := newIndex, currentValue := stored newValue\<rparr>))"
  using assms find_slice_id[OF assms(1)] by (simp add: write_update_def Let_def)

lemma write_update_fault1:
  "write_update db (FaultAt 1) now s d dt newIndex newValue nts auto = (db, Inl PersistenceFault)"
  by (simp add: write_update_def)

lemma write_update_rejected:
  assumes "\<not> create_accepted s d newIndex newValue" "flt \<noteq> FaultAt 1"
  shows "write_update db flt now s d dt newIndex newValue nts auto =
           (db, Inl IntegerColumnOutOfRange)"
  using assms by (simp add: write_update_def)

lemma write_update_fault2:
  assumes "create_accepted s d newIndex newValue"
  shows "write_update db (FaultAt 2) now s d dt newIndex newValue nts auto =
     (create_slice_update db
        \<lparr> sliceId = slice_id s, delta = d, deltaType = dt,
          valueBefore = currentValue s, valueAfter = stored newValue,
          indexBefore = currentIndex s, indexAfter = newIndex,
          date = now, update_notes = nts, automatic = auto \<rparr>,
      Inl PersistenceFault)"
  using assms by (simp add: write_update_def Let_def)

lemma write_update_later_fault:
  assumes "flt \<noteq> FaultAt 1" "flt \<noteq> FaultAt 2"
  shows "write_update db flt now s d dt newIndex newValue nts auto =
         write_update db NoFault now s d dt newIndex newValue nts auto"
  using assms by (simp add: write_update_def)


lemma select_config_if:
  "select_config s b =
      (if b then \<lparr> type = increaseType s, params = increaseParams s \<rparr>
       else \<lparr> type = decreaseType s, params = decreaseParams s \<rparr>)"
  by (simp add: select_config_def)

lemma storable_Finite [simp]: "storable (Finite v) = fits_integer_column v"
  by (simp add: storable_def)


lemma stored_Finite [simp]: "stored (Finite v) = v"
  by (simp add: stored_def)


text \<open>The successful run of \<open>write_update\<close>, table by table.\<close>

lemma write_update_success:
  assumes f: "find_slice db sid = Some s" and flt: "flt \<noteq> FaultAt 1" "flt \<noteq> FaultAt 2"
    and acc: "create_accepted s d newIndex newValue"
  shows "\<exists>db' s' row.
     write_update db flt now s d dt newIndex newValue nts auto = (db', Inr s')
     \<and> s' = s\<lparr>currentIndex := newIndex, currentValue := stored newValue\<rparr>
     \<and> find_slice db' sid = Some s'
     \<and> (\<forall>other. other \<noteq> sid \<longrightarrow> find_slice db' other = find_slice db other)
     \<and> sliceUpdates db' = sliceUpdates db @ [row]
     \<and> row = \<lparr> sliceId = sid, delta = d, deltaType = dt,
                valueBefore = currentValue s, valueAfter = stored newValue,
                indexBefore = currentIndex s, indexAfter = newIndex,
                date = now, update_notes = nts, automatic = auto \<rparr>
     \<and> sliceComponents db' = sliceComponents db
     \<and> sliceComponentUpdates db' = sliceComponentUpdates db
     \<and> db'\<lparr>slices := slices db\<rparr> = create_slice_update db row"
proof -
  define row where "row = \<lparr> sliceId = sid, delta = d, deltaType = dt,
                valueBefore = currentValue s, valueAfter = stored newValue,
                indexBefore = currentIndex s, indexAfter = newIndex,
                date = now, update_notes = nts, automatic = auto \<rparr>"
  define upd where
    "upd = (\<lambda>r::slice. r\<lparr>currentIndex := newIndex, currentValue := stored newValue\<rparr>)"
  define db' where "db' = update_slice_row (create_slice_update db row) sid upd"
  have id: "slice_id s = sid" using f by (rule find_slice_id)
  have res: "write_update db flt now s d dt newIndex newValue nts auto = (db', Inr (upd s))"
    using write_update_no_fault[OF f flt acc, of now dt nts auto]
    by (simp add: row_def db'_def upd_def)
  have fs: "find_slice db' other =
      map_option (\<lambda>s. if slice_id s = sid then upd s else s) (find_slice db other)" for other
    unfolding db'_def
    by (subst find_slice_update_slice_row) (simp_all add: upd_def)
  have f1: "find_slice db' sid = Some (upd s)"
    using fs[of sid] f id by simp
  have f2: "find_slice db' other = find_slice db other" if "other \<noteq> sid" for other
  proof (cases "find_slice db other")
    case None
    then show ?thesis using fs[of other] by simp
  next
    case (Some x)
    then have "slice_id x = other" by (rule find_slice_id)
    with Some that show ?thesis using fs[of other] by simp
  qed
  have tabs: "sliceUpdates db' = sliceUpdates db @ [row]"
    "sliceComponents db' = sliceComponents db"
    "sliceComponentUpdates db' = sliceComponentUpdates db"
    by (simp_all add: db'_def update_slice_row_def create_slice_update_def)
  have undo: "db'\<lparr>slices := slices db\<rparr> = create_slice_update db row"
    by (simp add: db'_def update_slice_row_def create_slice_update_def)
  show ?thesis
    apply (rule exI[of _ db'], rule exI[of _ "upd s"], rule exI[of _ row])
    using res f1 f2 tabs undo by (simp add: row_def upd_def)
qed

lemma example_find [simp]: "find_slice example_store ''1'' = Some example_slice"
  by (simp add: find_slice_def example_store_def example_slice_def)

lemma example_slice_fields [simp]:
  "slice_id example_slice = ''1''" "isComposite example_slice = False"
  "currentIndex example_slice = 5" "currentValue example_slice = 2"
  "increaseType example_slice = ''linear''"
  "increaseParams example_slice = Val (empty_params\<lparr>multiplier := Val 1\<rparr>)"
  "expectedTime example_slice = Some (9, 0)"
  "gracePeriod example_slice = Some 30"
  "penaltyInterval example_slice = Some 15"
  "penaltyAmount example_slice = Some (-1)"
  "temporalType example_slice = Some ''scheduled''"
  by (simp_all add: example_slice_def)

lemma steep_find [simp]: "find_slice steep_store ''1'' = Some steep_slice"
  by (simp add: find_slice_def steep_store_def steep_slice_def)

lemma steep_slice_fields [simp]:
  "slice_id steep_slice = ''1''" "isComposite steep_slice = False"
  "currentIndex steep_slice = 32" "currentValue steep_slice = 87"
  "decreaseType steep_slice = ''exponential''"
  "decreaseParams steep_slice = Val (empty_params\<lparr>base := Val 2\<rparr>)"
  by (simp_all add: steep_slice_def)

lemma example_value_7:
  "calculateValue \<lparr> type = ''linear'', params = Val (empty_params\<lparr>multiplier := Val 1\<rparr>) \<rparr> 7
     = Finite 7"
  by (simp add: calculateValue_def formula_value_def calculateLinear_def opt_field_def
      default_param_def nullish_def empty_params_def)





text \<open>The three outcomes of the two writes.\<close>

lemma write_update_outcome:
  assumes "find_slice db sid = Some s"
  shows "two_write_outcome db sid flt (write_update db flt now s d dt newIndex newValue nts auto)"
proof -
  have id: "slice_id s = sid" using assms by (rule find_slice_id)
  consider (f1) "flt = FaultAt 1"
    | (rej) "flt \<noteq> FaultAt 1" "\<not> create_accepted s d newIndex newValue"
    | (f2) "flt = FaultAt 2" "create_accepted s d newIndex newValue"
    | (ok) "flt \<noteq> FaultAt 1" "flt \<noteq> FaultAt 2" "create_accepted s d newIndex newValue"
    by blast
  then show ?thesis
  proof cases
    case f1
    show ?thesis unfolding f1 write_update_fault1 by (simp add: two_write_outcome_def)
  next
    case rej
    show ?thesis unfolding write_update_rejected[OF rej(2,1)] by (simp add: two_write_outcome_def)
  next
    case f2
    show ?thesis
      unfolding f2(1) write_update_fault2[OF f2(2)]
      by (simp add: two_write_outcome_def appended_one_def create_slice_update_def)
  next
    case ok
    from write_update_success[OF assms ok, of now dt nts auto]
    show ?thesis
      using id by (auto simp: two_write_outcome_def appended_one_def audit_agrees_def)
  qed
qed

lemma two_write_outcome_unchanged: "two_write_outcome db sid flt (db, Inl e)"
  by (simp add: two_write_outcome_def)

lemma updateBySteps_outcome:
  "two_write_outcome db sid flt (updateBySteps db flt now sid steps nts auto)"
  by (auto simp: updateBySteps_def findOne_def Let_def two_write_outcome_unchanged
      write_update_outcome split: option.splits)

lemma updateByPercentage_outcome:
  "two_write_outcome db sid flt (updateByPercentage db flt now sid percentage nts)"
  by (auto simp: updateByPercentage_def findOne_def Let_def two_write_outcome_unchanged
      write_update_outcome split: option.splits sum.splits)

lemma updateToValue_outcome:
  "two_write_outcome db sid flt (updateToValue db flt now sid v nts)"
  by (auto simp: updateToValue_def findOne_def Let_def two_write_outcome_unchanged
      write_update_outcome split: option.splits sum.splits)

text \<open>The behaviour under each fault, read off the run without a fault.\<close>

lemma fault_behaviour_error:
  assumes "\<And>f. f \<noteq> FaultAt 0 \<Longrightarrow> run f = (db, Inl e)"
    and "run (FaultAt 0) = (db, Inl PersistenceFault)"
  shows "fault_behaviour db sid run"
proof -
  have "run NoFault = (db, Inl e)" "run (FaultAt 1) = (db, Inl e)" "run (FaultAt 2) = (db, Inl e)"
    by (simp_all add: assms(1))
  then show ?thesis using assms(2) by (simp add: fault_behaviour_def)
qed

lemma fault_behaviour_write:
  assumes f: "find_slice db sid = Some s"
    and run: "\<And>f. f \<noteq> FaultAt 0 \<Longrightarrow> run f = write_update db f now s d dt newIndex newValue nts auto"
    and r0: "run (FaultAt 0) = (db, Inl PersistenceFault)"
  shows "fault_behaviour db sid run"
proof (cases "create_accepted s d newIndex newValue")
  case False
  have "run NoFault = (db, Inl IntegerColumnOutOfRange)"
    "run (FaultAt 2) = (db, Inl IntegerColumnOutOfRange)"
    "run (FaultAt 1) = (db, Inl PersistenceFault)"
    using run[of NoFault] run[of "FaultAt 2"] run[of "FaultAt 1"]
      write_update_rejected[OF False, of NoFault db now dt nts auto]
      write_update_rejected[OF False, of "FaultAt 2" db now dt nts auto]
      write_update_fault1[of db now s d dt newIndex newValue nts auto]
    by simp_all
  then show ?thesis using r0 by (simp add: fault_behaviour_def)
next
  case True
  from write_update_success[OF f _ _ True, of NoFault now dt nts auto]
  obtain db' s' row where
    h: "write_update db NoFault now s d dt newIndex newValue nts auto = (db', Inr s')"
      "s' = s\<lparr>currentIndex := newIndex, currentValue := stored newValue\<rparr>"
      "find_slice db' sid = Some s'"
      "sliceUpdates db' = sliceUpdates db @ [row]"
      "row = \<lparr> sliceId = sid, delta = d, deltaType = dt,
                valueBefore = currentValue s, valueAfter = stored newValue,
                indexBefore = currentIndex s, indexAfter = newIndex,
                date = now, update_notes = nts, automatic = auto \<rparr>"
      "db'\<lparr>slices := slices db\<rparr> = create_slice_update db row"
    by auto
  have id: "slice_id s = sid" using f by (rule find_slice_id)
  have n: "run NoFault = (db', Inr s')" using run[of NoFault] h(1) by simp
  have one: "run (FaultAt 1) = (db, Inl PersistenceFault)"
    using run[of "FaultAt 1"] write_update_fault1[of db now s d dt newIndex newValue nts auto]
    by simp
  have two: "run (FaultAt 2) = (db'\<lparr>slices := slices db\<rparr>, Inl PersistenceFault)"
    using run[of "FaultAt 2"] write_update_fault2[OF True, of db now dt nts auto] h(5,6) id
    by simp
  have app: "appended_one (sliceUpdates db) (sliceUpdates db')"
    using h(4) by (simp add: appended_one_def)
  have agree: "audit_agrees (last (sliceUpdates db')) s'"
    using h(2,4,5) id by (simp add: audit_agrees_def)
  show ?thesis
    using n r0 one two app h(3) agree by (simp add: fault_behaviour_def)
qed

lemma updateBySteps_faults:
  "fault_behaviour db sid (\<lambda>f. updateBySteps db f now sid steps nts auto)"
proof (cases "find_slice db sid")
  case None
  show ?thesis
    by (rule fault_behaviour_error[where e = NotFoundException])
       (simp_all add: updateBySteps_def findOne_def None)
next
  case (Some s)
  show ?thesis
  proof (cases "isComposite s")
    case True
    show ?thesis
      by (rule fault_behaviour_error[where e = BadRequestException])
         (simp_all add: updateBySteps_def findOne_def Some True)
  next
    case False
    show ?thesis
      by (rule fault_behaviour_write[OF Some, where d = steps and dt = "''steps''"
            and newIndex = "max 0 (min (currentIndex s + steps) MAX_INDEX)"
            and newValue = "calculateValue (select_config s (0 \<le> steps))
                              (max 0 (min (currentIndex s + steps) MAX_INDEX))"
            and now = now and nts = nts and auto = auto])
         (simp_all add: updateBySteps_def findOne_def Some False Let_def)
  qed
qed

lemma updateByPercentage_faults:
  "fault_behaviour db sid (\<lambda>f. updateByPercentage db f now sid percentage nts)"
proof (cases "find_slice db sid")
  case None
  show ?thesis
    by (rule fault_behaviour_error[where e = NotFoundException])
       (simp_all add: updateByPercentage_def findOne_def None)
next
  case (Some s)
  define config where "config = select_config s (0 \<le> percentage)"
  define target where "target =
     max 0 \<lfloor>rnd (real_of_int (currentValue s) * rnd (1 + rnd (real_of_int percentage / 100)))\<rfloor>"
  show ?thesis
  proof (cases "isComposite s")
    case True
    show ?thesis
      by (rule fault_behaviour_error[where e = BadRequestException])
         (simp_all add: updateByPercentage_def findOne_def Some True)
  next
    case False
    show ?thesis
    proof (cases "findClosestIndex config (Finite target) (Some MAX_INDEX)")
      case (Inl e)
      show ?thesis
        by (rule fault_behaviour_error[where e = e])
           (use Inl in \<open>simp_all add: updateByPercentage_def findOne_def Some False Let_def
              config_def target_def\<close>)
    next
      case (Inr newIndex)
      show ?thesis
        by (rule fault_behaviour_write[OF Some, where d = percentage and dt = "''percentage''"
              and newIndex = newIndex and newValue = "calculateValue config newIndex"
              and now = now and nts = nts and auto = False])
           (use Inr in \<open>simp_all add: updateByPercentage_def findOne_def Some False Let_def
              config_def target_def\<close>)
    qed
  qed
qed

lemma updateToValue_faults:
  "fault_behaviour db sid (\<lambda>f. updateToValue db f now sid v nts)"
proof (cases "find_slice db sid")
  case None
  show ?thesis
    by (rule fault_behaviour_error[where e = NotFoundException])
       (simp_all add: updateToValue_def findOne_def None)
next
  case (Some s)
  define config where "config = select_config s (currentValue s \<le> v)"
  show ?thesis
  proof (cases "isComposite s \<or> v < 0")
    case True
    show ?thesis
      by (rule fault_behaviour_error[where e = BadRequestException])
         (use True in \<open>auto simp: updateToValue_def findOne_def Some\<close>)
  next
    case False
    show ?thesis
    proof (cases "findClosestIndex config (Finite v) (Some MAX_INDEX)")
      case (Inl e)
      show ?thesis
        by (rule fault_behaviour_error[where e = e])
           (use Inl False in \<open>simp_all add: updateToValue_def findOne_def Some Let_def config_def\<close>)
    next
      case (Inr newIndex)
      show ?thesis
        by (rule fault_behaviour_write[OF Some, where d = v and dt = "''absolute''"
              and newIndex = newIndex and newValue = "calculateValue config newIndex"
              and now = now and nts = nts and auto = False])
           (use Inr False in \<open>simp_all add: updateToValue_def findOne_def Some Let_def config_def\<close>)
    qed
  qed
qed

lemma updateBySteps_later_fault:
  "2 < n \<Longrightarrow> updateBySteps db (FaultAt n) now sid steps nts auto
             = updateBySteps db NoFault now sid steps nts auto"
  by (simp add: updateBySteps_def Let_def write_update_later_fault[of "FaultAt n"]
      split: sum.splits)

lemma updateByPercentage_later_fault:
  "2 < n \<Longrightarrow> updateByPercentage db (FaultAt n) now sid percentage nts
             = updateByPercentage db NoFault now sid percentage nts"
  by (simp add: updateByPercentage_def Let_def write_update_later_fault[of "FaultAt n"]
      split: sum.splits)

lemma updateToValue_later_fault:
  "2 < n \<Longrightarrow> updateToValue db (FaultAt n) now sid v nts
             = updateToValue db NoFault now sid v nts"
  by (simp add: updateToValue_def Let_def write_update_later_fault[of "FaultAt n"]
      split: sum.splits)

lemma example_steps_run:
  "updateBySteps example_store flt 0 ''1'' 2 None False =
     (if flt = FaultAt 0 then (example_store, Inl PersistenceFault)
      else write_update example_store flt 0 example_slice 2 ''steps'' 7 (Finite 7) None False)"
proof -
  have c: "calculateValue (select_config example_slice True) 7 = Finite 7"
    by (simp add: select_config_if example_value_7)
  show ?thesis
    using c by (simp add: updateBySteps_def findOne_def Let_def MAX_INDEX_def)
qed

lemma example_accepted: "create_accepted example_slice 2 7 (Finite 7)"
  by (simp add: create_accepted_def fits_integer_column_def)

lemma example_steps_fault2:
  "updateBySteps example_store (FaultAt 2) 0 ''1'' 2 None False =
     (example_store\<lparr>sliceUpdates :=
        [\<lparr> sliceId = ''1'', delta = 2, deltaType = ''steps'', valueBefore = 2, valueAfter = 7,
           indexBefore = 5, indexAfter = 7, date = 0, update_notes = None, automatic = False \<rparr>]\<rparr>,
      Inl PersistenceFault)"
  unfolding example_steps_run
  by (simp add: write_update_fault2[OF example_accepted] create_slice_update_def)
     (simp add: example_store_def)

text \<open>
  Claim C2, as stated, fails: the service writes the audit row and the slice row in two
  separate persistence calls and opens no transaction.  When the second call faults, the
  store keeps the new audit row (index after 7, value after 7) while the slice still has
  index 5 and value 2.
\<close>

theorem update_atomicity_counterexample:
  "snd (updateBySteps example_store (FaultAt 2) 0 ''1'' 2 None False) = Inl PersistenceFault
   \<and> fst (updateBySteps example_store (FaultAt 2) 0 ''1'' 2 None False) \<noteq> example_store
   \<and> map indexAfter (sliceUpdates (fst (updateBySteps example_store (FaultAt 2) 0 ''1'' 2 None False))) = [7]
   \<and> map valueAfter (sliceUpdates (fst (updateBySteps example_store (FaultAt 2) 0 ''1'' 2 None False))) = [7]
   \<and> map_option currentIndex
        (find_slice (fst (updateBySteps example_store (FaultAt 2) 0 ''1'' 2 None False)) ''1'') = Some 5
   \<and> map_option currentValue
        (find_slice (fst (updateBySteps example_store (FaultAt 2) 0 ''1'' 2 None False)) ''1'') = Some 2"
  unfolding example_steps_fault2
  by (simp add: find_slice_def) (simp add: example_store_def example_slice_def)

text \<open>
  Claim C2, amended.  The audit row and the slice row are written by two separate
  persistence calls, in that order, with no transaction around them.  For each of
  \<open>updateBySteps\<close>, \<open>updateByPercentage\<close> and \<open>updateToValue\<close>:
  \<^item> every run leaves the store in one of three states: unchanged, with an error returned;
    with one audit row appended and the slice row updated, the row's after-fields equal to
    the persisted slice state; or, only when the second write faults, with the audit row
    appended and the slice rows unchanged;
  \<^item> when the run without a fault succeeds with store \<open>db2\<close>, a fault at the read or at
    the first write leaves the store as it was, and a fault at the second write leaves
    exactly \<open>db2\<close> with the slice rows of the old store, that is the new audit row beside
    the slice it does not describe; when the run without a fault raises, the store is
    unchanged under every fault;
  \<^item> a fault that would strike a call after the second write changes nothing.
\<close>

theorem update_engine_two_writes:
  "two_write_outcome db sid flt (updateBySteps db flt now sid steps nts auto)
   \<and> two_write_outcome db sid flt (updateByPercentage db flt now sid percentage nts)
   \<and> two_write_outcome db sid flt (updateToValue db flt now sid v nts)
   \<and> fault_behaviour db sid (\<lambda>f. updateBySteps db f now sid steps nts auto)
   \<and> fault_behaviour db sid (\<lambda>f. updateByPercentage db f now sid percentage nts)
   \<and> fault_behaviour db sid (\<lambda>f. updateToValue db f now sid v nts)
   \<and> (\<forall>n. 2 < n \<longrightarrow>
         updateBySteps db (FaultAt n) now sid steps nts auto
           = updateBySteps db NoFault now sid steps nts auto
         \<and> updateByPercentage db (FaultAt n) now sid percentage nts
           = updateByPercentage db NoFault now sid percentage nts
         \<and> updateToValue db (FaultAt n) now sid v nts
           = updateToValue db NoFault now sid v nts)"
proof (intro conjI allI impI)
  show "two_write_outcome db sid flt (updateBySteps db flt now sid steps nts auto)"
    by (rule updateBySteps_outcome)
  show "two_write_outcome db sid flt (updateByPercentage db flt now sid percentage nts)"
    by (rule updateByPercentage_outcome)
  show "two_write_outcome db sid flt (updateToValue db flt now sid v nts)"
    by (rule updateToValue_outcome)
  show "fault_behaviour db sid (\<lambda>f. updateBySteps db f now sid steps nts auto)"
    by (rule updateBySteps_faults)
  show "fault_behaviour db sid (\<lambda>f. updateByPercentage db f now sid percentage nts)"
    by (rule updateByPercentage_faults)
  show "fault_behaviour db sid (\<lambda>f. updateToValue db f now sid v nts)"
    by (rule updateToValue_faults)
next
  fix n :: nat assume "2 < n"
  then show "updateBySteps db (FaultAt n) now sid steps nts auto
           = updateBySteps db NoFault now sid steps nts auto"
    by (rule updateBySteps_later_fault)
next
  fix n :: nat assume "2 < n"
  then show "updateByPercentage db (FaultAt n) now sid percentage nts
           = updateByPercentage db NoFault now sid percentage nts"
    by (rule updateByPercentage_later_fault)
next
  fix n :: nat assume "2 < n"
  then show "updateToValue db (FaultAt n) now sid v nts
           = updateToValue db NoFault now sid v nts"
    by (rule updateToValue_later_fault)
qed

theorem update_engine_two_writes_witness:
  "(\<exists>db2 s2. updateBySteps example_store NoFault 0 ''1'' 2 None False = (db2, Inr s2)
       \<and> find_slice db2 ''1'' = Some s2 \<and> audit_agrees (last (sliceUpdates db2)) s2
       \<and> currentIndex s2 = 7 \<and> currentValue s2 = 7
       \<and> updateBySteps example_store (FaultAt 0) 0 ''1'' 2 None False
           = (example_store, Inl PersistenceFault)
       \<and> updateBySteps example_store (FaultAt 1) 0 ''1'' 2 None False
           = (example_store, Inl PersistenceFault)
       \<and> updateBySteps example_store (FaultAt 2) 0 ''1'' 2 None False
           = (db2\<lparr>slices := slices example_store\<rparr>, Inl PersistenceFault)
       \<and> sliceUpdates db2 \<noteq> sliceUpdates example_store
       \<and> updateBySteps example_store (FaultAt 3) 0 ''1'' 2 None False = (db2, Inr s2))
   \<and> two_write_outcome example_store ''1'' (FaultAt 2)
       (updateBySteps example_store (FaultAt 2) 0 ''1'' 2 None False)"
proof -
  note t = update_engine_two_writes[of example_store "''1''" "FaultAt 2" 0 2 None False 0 0]
  have fb: "fault_behaviour example_store ''1''
              (\<lambda>f. updateBySteps example_store f 0 ''1'' 2 None False)"
    and tw: "two_write_outcome example_store ''1'' (FaultAt 2)
       (updateBySteps example_store (FaultAt 2) 0 ''1'' 2 None False)"
    and later: "updateBySteps example_store (FaultAt 3) 0 ''1'' 2 None False
           = updateBySteps example_store NoFault 0 ''1'' 2 None False"
    using t by simp_all
  have "updateBySteps example_store NoFault 0 ''1'' 2 None False =
        write_update example_store NoFault 0 example_slice 2 ''steps'' 7 (Finite 7) None False"
    by (simp add: example_steps_run)
  also have "\<dots> =
     (update_slice_row
        (create_slice_update example_store
           \<lparr> sliceId = ''1'', delta = 2, deltaType = ''steps'',
             valueBefore = currentValue example_slice, valueAfter = stored (Finite 7),
             indexBefore = currentIndex example_slice, indexAfter = 7,
             date = 0, update_notes = None, automatic = False \<rparr>)
        ''1'' (\<lambda>r. r\<lparr>currentIndex := 7, currentValue := stored (Finite 7)\<rparr>),
      Inr (example_slice\<lparr>currentIndex := 7, currentValue := stored (Finite 7)\<rparr>))"
    by (rule write_update_no_fault[OF example_find _ _ example_accepted]) simp_all
  finally obtain db2 s2 where
    res: "updateBySteps example_store NoFault 0 ''1'' 2 None False = (db2, Inr s2)"
    and s2: "s2 = example_slice\<lparr>currentIndex := 7, currentValue := 7\<rparr>"
    by simp
  have app: "appended_one (sliceUpdates example_store) (sliceUpdates db2)"
    using fb res by (simp add: fault_behaviour_def)
  have ne: "sliceUpdates db2 \<noteq> sliceUpdates example_store"
    using app by (auto simp: appended_one_def example_store_def)
  show ?thesis
    using fb res s2 ne tw later
    by (simp add: fault_behaviour_def)
qed


lemma findClosestIndex_range:
  assumes "findClosestIndex config t (Some m) = Inr r" "0 \<le> m"
  shows "0 \<le> r \<and> r \<le> m"
proof (cases "t \<le> Finite 0")
  case True
  with assms show ?thesis by (simp add: findClosestIndex_def)
next
  case False
  have b: "binarySearchIndex config t 0 m \<in> {0..m}"
    unfolding binarySearchIndex_def using assms(2) by (intro binarySearchLoop_range) simp_all
  have "linearSearchIndex config t m \<in> {0..max 0 m}"
    unfolding linearSearchIndex_def using assms(2) by (intro linearSearchLoop_range) simp_all
  then have l: "linearSearchIndex config t m \<in> {0..m}" using assms(2) by (simp add: max_def)
  from assms(1) False b l show ?thesis
    by (auto simp: findClosestIndex_def split: sum.splits bool.splits)
qed


lemma keeps_index_range_refl [simp]: "keeps_index_range db db"
  by (simp add: keeps_index_range_def list_all2_same)

lemma keeps_index_range_trans:
  "keeps_index_range a b \<Longrightarrow> keeps_index_range b c \<Longrightarrow> keeps_index_range a c"
  unfolding keeps_index_range_def
  by (rule list_all2_trans[where ?P1.0 = "\<lambda>s s'. slice_id s' = slice_id s \<and> isComposite s' = isComposite s
                        \<and> (index_ok s \<longrightarrow> index_ok s')" and ?P2.0 = "\<lambda>s s'. slice_id s' = slice_id s \<and> isComposite s' = isComposite s
                        \<and> (index_ok s \<longrightarrow> index_ok s')"]) auto

lemma keeps_index_range_same_slices:
  "slices db' = slices db \<Longrightarrow> keeps_index_range db db'"
  by (simp add: keeps_index_range_def list_all2_same)

lemma keeps_index_range_update_slice_row:
  assumes "\<And>s. slice_id (f s) = slice_id s \<and> isComposite (f s) = isComposite s \<and> index_ok (f s)"
  shows "keeps_index_range db (update_slice_row db sid f)"
  using assms by (simp add: keeps_index_range_def update_slice_row_def list_all2_map2 list_all2_same)

lemma keeps_index_range_all:
  "keeps_index_range db db' \<Longrightarrow> list_all index_ok (slices db) \<Longrightarrow> list_all index_ok (slices db')"
  unfolding keeps_index_range_def list_all_iff
  by (fastforce simp: list_all2_conv_all_nth in_set_conv_nth)

lemma write_update_range:
  assumes "0 \<le> newIndex" "newIndex \<le> MAX_INDEX"
  shows "keeps_index_range db (fst (write_update db flt now s d dt newIndex newValue nts auto))"
proof -
  have "keeps_index_range db (create_slice_update db row)" for row
    by (rule keeps_index_range_same_slices) (simp add: create_slice_update_def)
  moreover have "keeps_index_range (create_slice_update db row)
      (update_slice_row (create_slice_update db row) (slice_id s)
         (\<lambda>r. r\<lparr>currentIndex := newIndex, currentValue := stored newValue\<rparr>))" for row
    using assms by (intro keeps_index_range_update_slice_row) (simp add: index_ok_def)
  ultimately show ?thesis
    by (auto simp: write_update_def Let_def intro: keeps_index_range_trans)
qed

lemma updateBySteps_range:
  "keeps_index_range db (fst (updateBySteps db flt now sid steps nts auto))"
  by (auto simp: updateBySteps_def findOne_def Let_def
      intro!: write_update_range split: option.splits) (simp_all add: MAX_INDEX_def)

lemma updateByPercentage_range:
  "keeps_index_range db (fst (updateByPercentage db flt now sid percentage nts))"
  by (auto simp: updateByPercentage_def findOne_def Let_def
      intro!: write_update_range dest!: findClosestIndex_range
      split: option.splits sum.splits) (simp_all add: MAX_INDEX_def)

lemma updateToValue_range:
  "keeps_index_range db (fst (updateToValue db flt now sid v nts))"
  by (auto simp: updateToValue_def findOne_def Let_def
      intro!: write_update_range dest!: findClosestIndex_range
      split: option.splits sum.splits) (simp_all add: MAX_INDEX_def)

lemma applyAutomaticPenalty_range:
  "keeps_index_range db (fst (applyAutomaticPenalty db now s d nts))"
  using updateBySteps_range[of db NoFault now "slice_id s" d "Some nts" True]
  by (cases "updateBySteps db NoFault now (slice_id s) d (Some nts) True")
     (simp add: applyAutomaticPenalty_def)

lemma evaluateScheduledSlice_range:
  "keeps_index_range db (fst (evaluateScheduledSlice db s u now today))"
  by (auto simp: evaluateScheduledSlice_def Let_def applyAutomaticPenalty_range
      split: option.splits prod.splits)

lemma evaluateContinuousSlice_range:
  "keeps_index_range db (fst (evaluateContinuousSlice db s u now))"
  by (auto simp: evaluateContinuousSlice_def Let_def applyAutomaticPenalty_range
      split: option.splits)

lemma evaluate_scheduled_all_range:
  "keeps_index_range db (evaluate_scheduled_all db xs now today)"
proof (induction xs arbitrary: db)
  case Nil
  then show ?case by simp
next
  case (Cons x xs)
  obtain s u where x: "x = (s, u)" by (cases x)
  obtain db' r where e: "evaluateScheduledSlice db s u now today = (db', r)"
    by (cases "evaluateScheduledSlice db s u now today")
  have step: "keeps_index_range db db'"
    using evaluateScheduledSlice_range[of db s u now today] e by simp
  show ?case
  proof (cases r)
    case (Inl err)
    with x e step show ?thesis by simp
  next
    case (Inr ok)
    with x e keeps_index_range_trans[OF step Cons.IH[of db']] show ?thesis by simp
  qed
qed

lemma reset_loop_range:
  "keeps_index_range db (reset_loop db xs)"
proof (induction xs arbitrary: db)
  case Nil
  then show ?case by simp
next
  case (Cons x xs)
  have "keeps_index_range db
          (update_slice_row db (slice_id x) (\<lambda>r. r\<lparr>currentIndex := 0, currentValue := 0\<rparr>))"
    by (intro keeps_index_range_update_slice_row) (simp add: index_ok_def MAX_INDEX_def)
  from keeps_index_range_trans[OF this Cons.IH] show ?case by simp
qed

text \<open>
  Claim C7.  Every operation that writes an index (the three updates, with or without a
  persistence fault, the penalty evaluation of a scheduled or continuous slice, the whole
  scheduled sweep, and the daily reset) keeps the slice rows in place and keeps every index
  that was in [0, \<open>MAX_INDEX\<close>] inside that range.
\<close>

theorem index_stays_in_range:
  "keeps_index_range db (fst (updateBySteps db flt now sid steps nts auto))
   \<and> keeps_index_range db (fst (updateByPercentage db flt now sid percentage nts))
   \<and> keeps_index_range db (fst (updateToValue db flt now sid v nts))
   \<and> keeps_index_range db (fst (evaluateScheduledSlice db s u now today))
   \<and> keeps_index_range db (fst (evaluateContinuousSlice db s u now))
   \<and> keeps_index_range db (checkScheduledSlices db now)
   \<and> keeps_index_range db (resetDailySlices db)"
  by (simp add: updateBySteps_range updateByPercentage_range updateToValue_range
      evaluateScheduledSlice_range evaluateContinuousSlice_range evaluate_scheduled_all_range
      reset_loop_range checkScheduledSlices_def resetDailySlices_def)

theorem index_stays_in_range_witness:
  "index_ok example_slice
   \<and> list_all index_ok (slices (fst (updateBySteps example_store NoFault 0 ''1'' 20000 None False)))
   \<and> list_all index_ok (slices (resetDailySlices example_store))"
proof -
  have "list_all index_ok (slices example_store)"
    by (simp add: index_ok_def example_store_def example_slice_def MAX_INDEX_def)
  then show ?thesis
    using index_stays_in_range[of example_store NoFault 0 "''1''" 20000 None False 0 0 example_slice None 0]
    by (auto dest: keeps_index_range_all simp: example_store_def)
qed

section \<open>Properties of the scheduled penalty sweep\<close>

lemma example_slice_at_fields [simp]:
  "slice_id (example_slice_at i) = ''1''"
  "isComposite (example_slice_at i) = False"
  "currentIndex (example_slice_at i) = i"
  "currentValue (example_slice_at i) = i"
  "expectedTime (example_slice_at i) = Some (9, 0)"
  "gracePeriod (example_slice_at i) = Some 30"
  "penaltyInterval (example_slice_at i) = Some 15"
  "penaltyAmount (example_slice_at i) = Some (-1)"
  "temporalType (example_slice_at i) = Some ''scheduled''"
  by (simp_all add: example_slice_at_def example_slice_def)

lemma example_slice_moved [simp]:
  "example_slice\<lparr>currentIndex := i, currentValue := i\<rparr> = example_slice_at i"
  "example_slice_at j\<lparr>currentIndex := i, currentValue := i\<rparr> = example_slice_at i"
  by (simp_all add: example_slice_at_def)

lemma calculateValue_example_decrease [simp]:
  "0 \<le> i \<Longrightarrow> i \<le> 10000 \<Longrightarrow>
     calculateValue (select_config (example_slice_at a) False) i = Finite i"
  "0 \<le> i \<Longrightarrow> i \<le> 10000 \<Longrightarrow>
     calculateValue (select_config example_slice False) i = Finite i"
  by (simp_all add: select_config_def example_slice_def example_slice_at_def calculateValue_def
        formula_value_def calculateLinear_def opt_field_def default_param_def nullish_def
        empty_params_def)

lemma example_past_deadline:
  "isPastScheduledTime ten_oclock (9, 0) 30 = (True, 30)"
  by (simp add: isPastScheduledTime_def getStartOfDay_def minutesElapsed_def ten_oclock_def Let_def)

lemma example_store_after: "example_store = store_after example_slice []"
  by (simp add: example_store_def store_after_def)

lemma penalty_step:
  assumes "slice_id s = ''1''" "\<not> isComposite s" "0 \<le> currentIndex s + d" "currentIndex s + d \<le> 10000"
    "d < 0" "calculateValue (select_config s False) (currentIndex s + d) = Finite (currentIndex s + d)"
    "create_accepted s d (currentIndex s + d) (Finite (currentIndex s + d))"
  shows "updateBySteps (store_after s us) NoFault ten_oclock ''1'' d (Some ''Scheduled penalty'') True
    = (store_after (s\<lparr>currentIndex := currentIndex s + d, currentValue := currentIndex s + d\<rparr>)
         (us @ [penalty_row d (currentValue s) (currentIndex s + d) (currentIndex s) (currentIndex s + d)]),
       Inr (s\<lparr>currentIndex := currentIndex s + d, currentValue := currentIndex s + d\<rparr>))"
  using assms
  by (simp add: updateBySteps_def findOne_def find_slice_def Let_def MAX_INDEX_def write_update_def
        create_slice_update_def update_slice_row_def penalty_row_def store_after_def)

lemma first_run:
  "checkScheduledSlices example_store ten_oclock = store_after (example_slice_at 3) [penalty_row (-2) 2 3 5 3]"
proof -
  have u: "updateBySteps (store_after example_slice []) NoFault ten_oclock ''1'' (-2) (Some ''Scheduled penalty'') True
    = (store_after (example_slice_at 3) [penalty_row (-2) 2 3 5 3], Inr (example_slice_at 3))"
    using penalty_step[of example_slice "-2" "[]"]
    by (simp add: create_accepted_def fits_integer_column_def)
  have c: "count_automatic_since (store_after example_slice []) ''1'' 0 = 0"
    by (simp add: count_automatic_since_def store_after_def)
  have e: "evaluateScheduledSlice (store_after example_slice []) example_slice None ten_oclock 0 =
     (store_after (example_slice_at 3) [penalty_row (-2) 2 3 5 3], Inr ())"
    by (simp add: evaluateScheduledSlice_def Let_def example_past_deadline null_as_zero_def
        scheduled_penaltiesToApply_def c applyAutomaticPenalty_def u)
  have t: "getStartOfDay ten_oclock = 0" by (simp add: getStartOfDay_def ten_oclock_def)
  show ?thesis
    unfolding example_store_after
    by (simp add: checkScheduledSlices_def latest_update_def t)
       (simp add: store_after_def e[unfolded store_after_def])
qed

lemma second_run:
  "checkScheduledSlices (store_after (example_slice_at 3) [penalty_row (-2) 2 3 5 3]) ten_oclock
     = store_after (example_slice_at 2) [penalty_row (-2) 2 3 5 3, penalty_row (-1) 3 2 3 2]"
proof -
  have u: "updateBySteps (store_after (example_slice_at 3) [penalty_row (-2) 2 3 5 3]) NoFault ten_oclock ''1'' (-1) (Some ''Scheduled penalty'') True
    = (store_after (example_slice_at 2) [penalty_row (-2) 2 3 5 3, penalty_row (-1) 3 2 3 2], Inr (example_slice_at 2))"
    using penalty_step[of "example_slice_at 3" "-1" "[penalty_row (-2) 2 3 5 3]"]
    by (simp add: create_accepted_def fits_integer_column_def)
  have c: "count_automatic_since (store_after (example_slice_at 3) [penalty_row (-2) 2 3 5 3]) ''1'' 0 = 1"
    by (simp add: count_automatic_since_def store_after_def penalty_row_def ten_oclock_def)
  have e: "evaluateScheduledSlice (store_after (example_slice_at 3) [penalty_row (-2) 2 3 5 3])
       (example_slice_at 3) (Some (penalty_row (-2) 2 3 5 3)) ten_oclock 0 =
     (store_after (example_slice_at 2) [penalty_row (-2) 2 3 5 3, penalty_row (-1) 3 2 3 2], Inr ())"
    by (simp add: evaluateScheduledSlice_def Let_def example_past_deadline null_as_zero_def
        scheduled_penaltiesToApply_def c applyAutomaticPenalty_def u)
       (simp_all add: penalty_row_def)
  have t: "getStartOfDay ten_oclock = 0" by (simp add: getStartOfDay_def ten_oclock_def)
  have l: "latest_update (store_after (example_slice_at 3) [penalty_row (-2) 2 3 5 3]) ''1''
            = Some (penalty_row (-2) 2 3 5 3)"
    by (simp add: latest_update_def store_after_def penalty_row_def)
  show ?thesis
    by (simp add: checkScheduledSlices_def t)
       (simp add: store_after_def l[unfolded store_after_def] e[unfolded store_after_def])
qed

text \<open>
  Claim C1 asks that a second sweep at the same instant applies nothing.  The sweep counts
  the automatic rows of today, while one row carries the aggregate of several penalties.
  At 10:00, with the deadline 09:30 and a penalty every 15 minutes, two penalties are due:
  the first sweep writes one row with delta -2; the second sweep counts that one row,
  computes \<open>penaltiesToApply\<close> = 1 and writes a second row with delta -1, leaving the index
  at 2 instead of 3.
\<close>

theorem scheduled_sweep_twice:
  "scheduled_penaltiesToApply (checkScheduledSlices example_store ten_oclock) example_slice 0 2 = 1
   \<and> map delta (sliceUpdates (checkScheduledSlices example_store ten_oclock)) = [-2]
   \<and> map delta (sliceUpdates
        (checkScheduledSlices (checkScheduledSlices example_store ten_oclock) ten_oclock)) = [-2, -1]
   \<and> map currentIndex (slices
        (checkScheduledSlices (checkScheduledSlices example_store ten_oclock) ten_oclock)) = [2]"
  unfolding first_run second_run
  by (simp add: store_after_def penalty_row_def scheduled_penaltiesToApply_def
      count_automatic_since_def ten_oclock_def)

section \<open>Properties of the composite aggregation engine\<close>

lemma hygiene_components:
  "components_of hygiene_store ''h'' = sliceComponents hygiene_store"
  by (simp add: components_of_def hygiene_store_def hygiene_component_def)

lemma hygiene_find_slice [simp]: "find_slice hygiene_store ''h'' = Some hygiene_slice"
  by (simp add: find_slice_def hygiene_store_def hygiene_slice_def)

lemma hygiene_is_composite [simp]: "isComposite hygiene_slice"
  by (simp add: hygiene_slice_def)

text \<open>A component checked at the very instant of the call has not decayed.\<close>

lemma applyDecay_fresh:
  assumes "0 \<le> v" "v < 2 ^ 53"
  shows "applyDecay (hygiene_component k w v dt rate (Some now)) now = real_of_int v"
proof -
  have "\<bar>v\<bar> < 2 ^ 53" using assms by simp
  then have "rnd (real_of_int v) = real_of_int v" by (rule rnd_of_int)
  then show ?thesis
    using assms(1) by (simp add: applyDecay_def decayed_by_def hygiene_component_def)
qed

lemma weighted_loop_fresh:
  assumes "0 \<le> v" "v < 2 ^ 53"
    and "rnd (real_of_int w / 100) = a" "rnd (real_of_int v * a) = p" "rnd (ws + p) = ws'"
  shows "weighted_loop now (hygiene_component k w v dt rate (Some now) # cs) (ws, tw)
       = weighted_loop now cs (ws', tw + w)"
proof -
  have "weight (hygiene_component k w v dt rate (Some now)) = w"
    by (simp add: hygiene_component_def)
  then show ?thesis
    using assms(3-5) by (simp add: applyDecay_fresh[OF assms(1,2)])
qed

lemma calculateCompositeValue_eval:
  assumes "isComposite s" "components_of db (slice_id s) = cs" "cs \<noteq> []"
    and "weighted_loop now cs (0, 0) = (ws, tw)" "tw \<noteq> 0"
    and "rnd (ws * 100) = m" "rnd (m / real_of_int tw) = q" "\<lfloor>q\<rfloor> = r"
  shows "calculateCompositeValue db s now = Inr r"
  using assms by (simp add: calculateCompositeValue_def)

text \<open>The two stores, one double operation at a time.\<close>

lemma worn_composite_value:
  "calculateCompositeValue worn_store hygiene_slice 0 = Inr 25"
proof -
  have a0: "rnd (real_of_int 30 / 100) = 5404319552844595 / 2 ^ 54"
    using rnd_near[where x = "real_of_int 30 / 100" and n = 5404319552844595 and s = 54] by simp
  have p0: "rnd (real_of_int 4 * (5404319552844595 / 2 ^ 54)) = 5404319552844595 / 2 ^ 52"
    using rnd_near[where x = "real_of_int 4 * (5404319552844595 / 2 ^ 54)" and n = 5404319552844595 and s = 52] by simp
  have s0: "rnd (0 + 5404319552844595 / 2 ^ 52) = 5404319552844595 / 2 ^ 52"
    using rnd_near[where x = "0 + 5404319552844595 / 2 ^ 52" and n = 5404319552844595 and s = 52] by simp
  have a1: "rnd (real_of_int 25 / 100) = 4503599627370496 / 2 ^ 54"
    using rnd_near[where x = "real_of_int 25 / 100" and n = 4503599627370496 and s = 54] by simp
  have p1: "rnd (real_of_int 48 * (4503599627370496 / 2 ^ 54)) = 6755399441055744 / 2 ^ 49"
    using rnd_near[where x = "real_of_int 48 * (4503599627370496 / 2 ^ 54)" and n = 6755399441055744 and s = 49] by simp
  have s1: "rnd (5404319552844595 / 2 ^ 52 + 6755399441055744 / 2 ^ 49) = 7430939385161318 / 2 ^ 49"
    using rnd_near[where x = "5404319552844595 / 2 ^ 52 + 6755399441055744 / 2 ^ 49" and n = 7430939385161318 and s = 49] by simp
  have a2: "rnd (real_of_int 20 / 100) = 7205759403792794 / 2 ^ 55"
    using rnd_near[where x = "real_of_int 20 / 100" and n = 7205759403792794 and s = 55] by simp
  have p2: "rnd (real_of_int 25 * (7205759403792794 / 2 ^ 55)) = 5629499534213120 / 2 ^ 50"
    using rnd_near[where x = "real_of_int 25 * (7205759403792794 / 2 ^ 55)" and n = 5629499534213120 and s = 50] by simp
  have s2: "rnd (7430939385161318 / 2 ^ 49 + 5629499534213120 / 2 ^ 50) = 5122844576133939 / 2 ^ 48"
    using rnd_near[where x = "7430939385161318 / 2 ^ 49 + 5629499534213120 / 2 ^ 50" and n = 5122844576133939 and s = 48] by simp
  have a3: "rnd (real_of_int 15 / 100) = 5404319552844595 / 2 ^ 55"
    using rnd_near[where x = "real_of_int 15 / 100" and n = 5404319552844595 and s = 55] by simp
  have p3: "rnd (real_of_int 44 * (5404319552844595 / 2 ^ 55)) = 7430939385161318 / 2 ^ 50"
    using rnd_near[where x = "real_of_int 44 * (5404319552844595 / 2 ^ 55)" and n = 7430939385161318 and s = 50] by simp
  have s3: "rnd (5122844576133939 / 2 ^ 48 + 7430939385161318 / 2 ^ 50) = 6980579422424268 / 2 ^ 48"
    using rnd_tie_down[where x = "5122844576133939 / 2 ^ 48 + 7430939385161318 / 2 ^ 50" and n = 6980579422424268 and s = 48] by simp
  have a4: "rnd (real_of_int 10 / 100) = 7205759403792794 / 2 ^ 56"
    using rnd_near[where x = "real_of_int 10 / 100" and n = 7205759403792794 and s = 56] by simp
  have p4: "rnd (real_of_int 12 * (7205759403792794 / 2 ^ 56)) = 5404319552844596 / 2 ^ 52"
    using rnd_tie_up[where x = "real_of_int 12 * (7205759403792794 / 2 ^ 56)" and n = 5404319552844596 and s = 52] by simp
  have s4: "rnd (6980579422424268 / 2 ^ 48 + 5404319552844596 / 2 ^ 52) = 7318349394477055 / 2 ^ 48"
    using rnd_near[where x = "6980579422424268 / 2 ^ 48 + 5404319552844596 / 2 ^ 52" and n = 7318349394477055 and s = 48] by simp
  have m: "rnd (7318349394477055 / 2 ^ 48 * 100) = 5717460464435199 / 2 ^ 41"
    using rnd_near[where x = "7318349394477055 / 2 ^ 48 * 100" and n = 5717460464435199 and s = 41] by simp
  have q: "rnd (5717460464435199 / 2 ^ 41 / real_of_int 100) = 7318349394477055 / 2 ^ 48"
    using rnd_near[where x = "5717460464435199 / 2 ^ 41 / real_of_int 100" and n = 7318349394477055 and s = 48] by simp
  have fl: "\<lfloor>(7318349394477055 / 2 ^ 48 :: real)\<rfloor> = 25"
    by (simp add: floor_eq_iff)
  have cs: "components_of worn_store (slice_id hygiene_slice) =
      [hygiene_component ''teeth'' 30 4 ''daily'' 20 (Some 0),
       hygiene_component ''shower'' 25 48 ''daily'' 30 (Some 0),
       hygiene_component ''nails'' 20 25 ''weekly'' 10 (Some 0),
       hygiene_component ''haircut'' 15 44 ''weekly'' 5 (Some 0),
       hygiene_component ''shave'' 10 12 ''daily'' 15 (Some 0)]"
    by (simp add: components_of_def worn_store_def hygiene_component_def hygiene_slice_def)
  have "weighted_loop 0
       [hygiene_component ''teeth'' 30 4 ''daily'' 20 (Some 0),
        hygiene_component ''shower'' 25 48 ''daily'' 30 (Some 0),
        hygiene_component ''nails'' 20 25 ''weekly'' 10 (Some 0),
        hygiene_component ''haircut'' 15 44 ''weekly'' 5 (Some 0),
        hygiene_component ''shave'' 10 12 ''daily'' 15 (Some 0)]
       (0, 0) =
     weighted_loop 0
       [hygiene_component ''shower'' 25 48 ''daily'' 30 (Some 0),
        hygiene_component ''nails'' 20 25 ''weekly'' 10 (Some 0),
        hygiene_component ''haircut'' 15 44 ''weekly'' 5 (Some 0),
        hygiene_component ''shave'' 10 12 ''daily'' 15 (Some 0)]
       (5404319552844595 / 2 ^ 52, 0 + 30)"
    by (rule weighted_loop_fresh[OF _ _ a0 p0 s0]) simp_all
  also have "\<dots> =
     weighted_loop 0
       [hygiene_component ''nails'' 20 25 ''weekly'' 10 (Some 0),
        hygiene_component ''haircut'' 15 44 ''weekly'' 5 (Some 0),
        hygiene_component ''shave'' 10 12 ''daily'' 15 (Some 0)]
       (7430939385161318 / 2 ^ 49, 0 + 30 + 25)"
    by (rule weighted_loop_fresh[OF _ _ a1 p1 s1]) simp_all
  also have "\<dots> =
     weighted_loop 0
       [hygiene_component ''haircut'' 15 44 ''weekly'' 5 (Some 0),
        hygiene_component ''shave'' 10 12 ''daily'' 15 (Some 0)]
       (5122844576133939 / 2 ^ 48, 0 + 30 + 25 + 20)"
    by (rule weighted_loop_fresh[OF _ _ a2 p2 s2]) simp_all
  also have "\<dots> =
     weighted_loop 0
       [hygiene_component ''shave'' 10 12 ''daily'' 15 (Some 0)]
       (6980579422424268 / 2 ^ 48, 0 + 30 + 25 + 20 + 15)"
    by (rule weighted_loop_fresh[OF _ _ a3 p3 s3]) simp_all
  also have "\<dots> =
     weighted_loop 0
       []
       (7318349394477055 / 2 ^ 48, 0 + 30 + 25 + 20 + 15 + 10)"
    by (rule weighted_loop_fresh[OF _ _ a4 p4 s4]) simp_all
  also have "\<dots> = (7318349394477055 / 2 ^ 48, 100)"
    by simp
  finally have loop: "weighted_loop 0
       [hygiene_component ''teeth'' 30 4 ''daily'' 20 (Some 0),
        hygiene_component ''shower'' 25 48 ''daily'' 30 (Some 0),
        hygiene_component ''nails'' 20 25 ''weekly'' 10 (Some 0),
        hygiene_component ''haircut'' 15 44 ''weekly'' 5 (Some 0),
        hygiene_component ''shave'' 10 12 ''daily'' 15 (Some 0)]
       (0, 0) = (7318349394477055 / 2 ^ 48, 100)" .
  show ?thesis
    by (rule calculateCompositeValue_eval[OF _ cs _ loop _ m q fl]) simp_all
qed

lemma solo_composite_value:
  "calculateCompositeValue solo_store hygiene_slice 0 = Inr 99"
proof -
  have a0: "rnd (real_of_int 29 / 100) = 5224175567749775 / 2 ^ 54"
    using rnd_near[where x = "real_of_int 29 / 100" and n = 5224175567749775 and s = 54] by simp
  have p0: "rnd (real_of_int 100 * (5224175567749775 / 2 ^ 54)) = 8162774324609023 / 2 ^ 48"
    using rnd_near[where x = "real_of_int 100 * (5224175567749775 / 2 ^ 54)" and n = 8162774324609023 and s = 48] by simp
  have s0: "rnd (0 + 8162774324609023 / 2 ^ 48) = 8162774324609023 / 2 ^ 48"
    using rnd_near[where x = "0 + 8162774324609023 / 2 ^ 48" and n = 8162774324609023 and s = 48] by simp
  have m: "rnd (8162774324609023 / 2 ^ 48 * 100) = 6377167441100799 / 2 ^ 41"
    using rnd_near[where x = "8162774324609023 / 2 ^ 48 * 100" and n = 6377167441100799 and s = 41] by simp
  have q: "rnd (6377167441100799 / 2 ^ 41 / real_of_int 29) = 7036874417766399 / 2 ^ 46"
    using rnd_near[where x = "6377167441100799 / 2 ^ 41 / real_of_int 29" and n = 7036874417766399 and s = 46] by simp
  have fl: "\<lfloor>(7036874417766399 / 2 ^ 46 :: real)\<rfloor> = 99"
    by (simp add: floor_eq_iff)
  have cs: "components_of solo_store (slice_id hygiene_slice) =
      [hygiene_component ''teeth'' 29 100 ''daily'' 20 (Some 0)]"
    by (simp add: components_of_def solo_store_def hygiene_component_def hygiene_slice_def)
  have "weighted_loop 0
       [hygiene_component ''teeth'' 29 100 ''daily'' 20 (Some 0)]
       (0, 0) =
     weighted_loop 0
       []
       (8162774324609023 / 2 ^ 48, 0 + 29)"
    by (rule weighted_loop_fresh[OF _ _ a0 p0 s0]) simp_all
  also have "\<dots> = (8162774324609023 / 2 ^ 48, 29)"
    by simp
  finally have loop: "weighted_loop 0
       [hygiene_component ''teeth'' 29 100 ''daily'' 20 (Some 0)]
       (0, 0) = (8162774324609023 / 2 ^ 48, 29)" .
  show ?thesis
    by (rule calculateCompositeValue_eval[OF _ cs _ loop _ m q fl]) simp_all
qed

lemma worn_spec_value:
  "spec_compositeValue (components_of worn_store (slice_id hygiene_slice)) 0 = 26"
  by (simp add: components_of_def worn_store_def hygiene_component_def hygiene_slice_def
      spec_compositeValue_def spec_decayedValue_def spec_periods_def)

lemma solo_spec_value:
  "spec_compositeValue (components_of solo_store (slice_id hygiene_slice)) 0 = 100"
  by (simp add: components_of_def solo_store_def hygiene_component_def hygiene_slice_def
      spec_compositeValue_def spec_decayedValue_def spec_periods_def)

text \<open>
  Claim C6 states that \<open>calculateCompositeValue\<close> returns the floor of the weighted mean
  \<open>\<Sum> decayed\<^sub>i * weight\<^sub>i / \<Sum> weight\<^sub>i\<close> of the decayed component values.  The code
  computes \<open>weight / 100\<close>, the products, their sum, the product by 100 and the quotient
  in doubles, and takes the floor of the rounded result.  With the seeded weights 30, 25,
  20, 15 and 10 and the component values 4, 48, 25, 44 and 12, checked at the instant of
  the call, the weighted mean is exactly 26 and the code returns 25; with one component
  of weight 29 at the value 100 the mean is 100 and the code returns 99.  The component
  of another slice in the first store is left out, as it must be.
\<close>

theorem calculateCompositeValue_rounding:
  "isComposite hygiene_slice
   \<and> length (sliceComponents worn_store) = 6
   \<and> map weight (components_of worn_store (slice_id hygiene_slice)) = [30, 25, 20, 15, 10]
   \<and> map component_currentValue (components_of worn_store (slice_id hygiene_slice))
       = [4, 48, 25, 44, 12]
   \<and> map lastChecked (components_of worn_store (slice_id hygiene_slice))
       = [Some 0, Some 0, Some 0, Some 0, Some 0]
   \<and> spec_compositeValue (components_of worn_store (slice_id hygiene_slice)) 0 = 26
   \<and> calculateCompositeValue worn_store hygiene_slice 0 = Inr 25
   \<and> map weight (components_of solo_store (slice_id hygiene_slice)) = [29]
   \<and> map component_currentValue (components_of solo_store (slice_id hygiene_slice)) = [100]
   \<and> spec_compositeValue (components_of solo_store (slice_id hygiene_slice)) 0 = 100
   \<and> calculateCompositeValue solo_store hygiene_slice 0 = Inr 99"
  unfolding worn_composite_value solo_composite_value worn_spec_value solo_spec_value
  by (simp add: components_of_def worn_store_def solo_store_def hygiene_component_def
      hygiene_slice_def)

section \<open>Properties of check-off and decay\<close>

lemma list_all2_filter_related:
  assumes "list_all2 R xs ys" "\<And>x y. R x y \<Longrightarrow> P x = Q y"
  shows "list_all2 R (filter P xs) (filter Q ys)"
  using assms(1)
proof (induction rule: list_all2_induct)
  case Nil
  then show ?case by simp
next
  case (Cons x xs y ys)
  then show ?case using assms(2)[of x y] by simp
qed

lemma find_related:
  assumes "list_all2 R xs ys" "\<And>x y. R x y \<Longrightarrow> P x = Q y"
  shows "rel_option R (find P xs) (find Q ys)"
  using assms(1)
proof (induction rule: list_all2_induct)
  case Nil
  then show ?case by simp
next
  case (Cons x xs y ys)
  then show ?case using assms(2)[of x y] by simp
qed

lemma checked_off_trans:
  "checked_off now A x y \<Longrightarrow> checked_off now B y z \<Longrightarrow> checked_off now (A \<union> B) x z"
  by (auto simp: checked_off_def)

lemma checked_off_refl: "checked_off now {} x x"
  by (simp add: checked_off_def)

lemma list_all2_checked_off_trans:
  assumes "list_all2 (checked_off now A) xs ys" "list_all2 (checked_off now B) ys zs"
  shows "list_all2 (checked_off now (A \<union> B)) xs zs"
  by (rule list_all2_trans[OF _ assms]) (rule checked_off_trans)

lemma check_off_components:
  "list_all2 (checked_off now {component_id c}) (sliceComponents db)
     (sliceComponents (check_off db now c v nts))"
  by (simp add: check_off_def Let_def update_component_row_def create_component_update_def
      list_all2_map2 list_all2_same checked_off_def)

lemma check_off_other_tables:
  "slices (check_off db now c v nts) = slices db"
  "sliceUpdates (check_off db now c v nts) = sliceUpdates db"
  "sliceComponentUpdates (check_off db now c v nts) =
     sliceComponentUpdates db @
       [\<lparr> componentId = component_id c, component_valueBefore = component_currentValue c,
          component_valueAfter = v, component_date = now, component_notes = nts \<rparr>]"
  by (simp_all add: check_off_def Let_def update_component_row_def create_component_update_def)

lemma recalculate_parent_tables:
  "sliceComponents (fst (recalculate_parent db s now)) = sliceComponents db"
  "sliceComponentUpdates (fst (recalculate_parent db s now)) = sliceComponentUpdates db"
  "sliceUpdates (fst (recalculate_parent db s now)) = sliceUpdates db"
  by (simp_all add: recalculate_parent_def update_slice_row_def split: sum.splits)

lemma components_of_recalculate_parent [simp]:
  "components_of (fst (recalculate_parent db s now)) sid = components_of db sid"
  by (simp add: components_of_def recalculate_parent_tables)

lemma recalculate_parent_succeeds:
  "isComposite s \<Longrightarrow> \<exists>db' s'. recalculate_parent db s now = (db', Inr s')"
  by (simp add: recalculate_parent_def calculateCompositeValue_def Let_def split: prod.splits)

lemma selected_ids_Nil [simp]: "selected_ids snapshot [] = {}"
  by (simp add: selected_ids_def)

lemma selected_ids_Cons:
  "selected_ids snapshot (k # ks) =
     (case find (\<lambda>c. key c = k) snapshot of None \<Rightarrow> {} | Some c \<Rightarrow> {component_id c})
       \<union> selected_ids snapshot ks"
  by (auto simp: selected_ids_def split: option.splits)

lemma check_off_keys_components:
  "list_all2 (checked_off now (selected_ids snapshot ks)) (sliceComponents db)
     (sliceComponents (check_off_keys db now snapshot ks nts))"
proof (induction ks arbitrary: db)
  case Nil
  show ?case by (simp add: list_all2_same checked_off_refl)
next
  case (Cons k ks)
  show ?case
  proof (cases "find (\<lambda>c. key c = k) snapshot")
    case None
    then show ?thesis using Cons.IH[of db] by (simp add: selected_ids_Cons)
  next
    case (Some c)
    have "list_all2 (checked_off now ({component_id c} \<union> selected_ids snapshot ks))
            (sliceComponents db)
            (sliceComponents (check_off_keys (check_off db now c (maxValue c) nts) now snapshot ks nts))"
      by (rule list_all2_checked_off_trans[OF check_off_components Cons.IH])
    then show ?thesis using Some by (simp add: selected_ids_Cons)
  qed
qed

lemma checked_off_lookup:
  assumes rel: "list_all2 (checked_off now ids) (sliceComponents db) (sliceComponents db')"
    and f': "find (\<lambda>c. key c = k) (components_of db' sid) = Some c'"
  shows "\<exists>c. find (\<lambda>c. key c = k) (components_of db sid) = Some c \<and> checked_off now ids c c'"
proof -
  have "list_all2 (checked_off now ids) (components_of db sid) (components_of db' sid)"
    unfolding components_of_def
    by (rule list_all2_filter_related[OF rel]) (simp add: checked_off_def)
  then have "rel_option (checked_off now ids)
      (find (\<lambda>c. key c = k) (components_of db sid)) (find (\<lambda>c. key c = k) (components_of db' sid))"
    by (rule find_related) (simp add: checked_off_def)
  with f' show ?thesis
    by (cases "find (\<lambda>c. key c = k) (components_of db sid)") simp_all
qed

lemma updateComponent_sets_lastChecked:
  assumes "updateComponent db now sid k v nts = (db', Inr s')"
    and "find (\<lambda>c. key c = k) (components_of db' sid) = Some c'"
  shows "lastChecked c' = Some now"
proof -
  from assms(1) obtain s c where
    s: "find_slice db sid = Some s" "isComposite s"
    and c: "find (\<lambda>c. key c = k) (components_of db sid) = Some c"
    and r: "recalculate_parent (check_off db now c (nullish v (maxValue c)) nts) s now = (db', Inr s')"
    by (auto simp: updateComponent_def Let_def split: option.splits if_splits)
  have "sliceComponents db' = sliceComponents (check_off db now c (nullish v (maxValue c)) nts)"
    using recalculate_parent_tables(1)[of "check_off db now c (nullish v (maxValue c)) nts" s now] r
    by simp
  then have "list_all2 (checked_off now {component_id c}) (sliceComponents db) (sliceComponents db')"
    using check_off_components[of now c db "nullish v (maxValue c)" nts] by simp
  from checked_off_lookup[OF this assms(2)] c show ?thesis
    by (auto simp: checked_off_def)
qed

lemma updateMultipleComponents_sets_lastChecked:
  assumes "updateMultipleComponents db now sid ks nts = (db', Inr s')"
    and "k \<in> set ks"
    and "find (\<lambda>c. key c = k) (components_of db' sid) = Some c'"
  shows "lastChecked c' = Some now"
proof -
  from assms(1) obtain s where
    s: "find_slice db sid = Some s" "isComposite s"
    and r: "recalculate_parent (check_off_keys db now (components_of db sid) ks nts) s now = (db', Inr s')"
    by (auto simp: updateMultipleComponents_def split: option.splits if_splits)
  have "sliceComponents db' = sliceComponents (check_off_keys db now (components_of db sid) ks nts)"
    using recalculate_parent_tables(1)[of "check_off_keys db now (components_of db sid) ks nts" s now] r
    by simp
  then have "list_all2 (checked_off now (selected_ids (components_of db sid) ks))
               (sliceComponents db) (sliceComponents db')"
    using check_off_keys_components[of now "components_of db sid" ks db nts] by simp
  from checked_off_lookup[OF this assms(3)] obtain c where
    c: "find (\<lambda>c. key c = k) (components_of db sid) = Some c"
      "checked_off now (selected_ids (components_of db sid) ks) c c'" by blast
  have "component_id c \<in> selected_ids (components_of db sid) ks"
    using c(1) assms(2) by (auto simp: selected_ids_def)
  with c(2) show ?thesis by (simp add: checked_off_def)
qed


lemma filter_map_preserved:
  "(\<And>x. P (g x) = P x) \<Longrightarrow> filter P (map g xs) = map g (filter P xs)"
  by (induction xs) simp_all

lemma find_checked_off_component:
  assumes "find (\<lambda>c. key c = k) (components_of db sid) = Some c"
  shows "find (\<lambda>c. key c = k) (components_of (check_off db now c v nts) sid) =
           Some (c\<lparr>component_currentValue := v, lastChecked := Some now\<rparr>)"
proof -
  define g :: "slice_component \<Rightarrow> slice_component" where
    "g = (\<lambda>x. if component_id x = component_id c
     then x\<lparr>component_currentValue := v, lastChecked := Some now\<rparr> else x)"
  have "components_of (check_off db now c v nts) sid = map g (components_of db sid)"
    unfolding components_of_def
    by (simp add: check_off_def Let_def update_component_row_def create_component_update_def
        g_def[symmetric])
       (rule filter_map_preserved, simp add: g_def)
  moreover have "find (\<lambda>c. key c = k) (map g (components_of db sid)) =
      map_option g (find (\<lambda>c. key c = k) (components_of db sid))"
    by (rule find_map_preserved) (simp add: g_def)
  ultimately show ?thesis using assms by (simp add: g_def)
qed

lemma updateComponent_in_range:
  assumes "find_slice db sid = Some s" "isComposite s"
    and "find (\<lambda>c. key c = k) (components_of db sid) = Some c"
    and "0 \<le> nullish v (maxValue c)" "nullish v (maxValue c) \<le> maxValue c"
  shows "\<exists>db' s'.
     updateComponent db now sid k v nts = (db', Inr s')
     \<and> find (\<lambda>c. key c = k) (components_of db' sid) =
         Some (c\<lparr>component_currentValue := nullish v (maxValue c), lastChecked := Some now\<rparr>)
     \<and> sliceComponentUpdates db' = sliceComponentUpdates db @
         [\<lparr> componentId = component_id c, component_valueBefore = component_currentValue c,
            component_valueAfter = nullish v (maxValue c), component_date = now,
            component_notes = nts \<rparr>]"
proof -
  define db1 where "db1 = check_off db now c (nullish v (maxValue c)) nts"
  from recalculate_parent_succeeds[OF assms(2), of db1 now] obtain db' s' where
    r: "recalculate_parent db1 s now = (db', Inr s')" by blast
  have u: "updateComponent db now sid k v nts = (db', Inr s')"
    using assms r by (simp add: updateComponent_def Let_def db1_def)
  have c': "components_of db' sid = components_of db1 sid"
    using components_of_recalculate_parent[of db1 s now sid] r by simp
  have t: "sliceComponentUpdates db' = sliceComponentUpdates db1"
    using recalculate_parent_tables(2)[of db1 s now] r by simp
  show ?thesis
    using u c' t find_checked_off_component[OF assms(3), of now "nullish v (maxValue c)" nts]
    by (simp add: db1_def check_off_other_tables)
qed

text \<open>
  Claim C9.  On a composite slice with a component of the given key whose \<open>maxValue\<close> is not
  negative, \<open>updateComponent\<close> with the explicit value 0 passes the range check, sets the
  component's value to 0 and records 0 as the value after; the value falls back to
  \<open>maxValue\<close> only when the argument is absent (undefined or null).
\<close>

theorem updateComponent_explicit_zero:
  assumes "find_slice db sid = Some s" and "isComposite s"
    and "find (\<lambda>c. key c = k) (components_of db sid) = Some c"
    and "0 \<le> maxValue c"
  shows "(\<exists>db' s' c'.
            updateComponent db now sid k (Val 0) nts = (db', Inr s')
            \<and> find (\<lambda>c. key c = k) (components_of db' sid) = Some c'
            \<and> component_currentValue c' = 0
            \<and> map component_valueAfter (sliceComponentUpdates db') =
                map component_valueAfter (sliceComponentUpdates db) @ [0])
       \<and> (\<forall>v \<in> {Undefined, Null}. \<exists>db' s' c'.
            updateComponent db now sid k v nts = (db', Inr s')
            \<and> find (\<lambda>c. key c = k) (components_of db' sid) = Some c'
            \<and> component_currentValue c' = maxValue c)"
proof (intro conjI ballI)
  have "0 \<le> nullish (Val 0) (maxValue c)" "nullish (Val 0) (maxValue c) \<le> maxValue c"
    using assms(4) by (simp_all add: nullish_def)
  from updateComponent_in_range[OF assms(1-3) this, of now nts]
  show "\<exists>db' s' c'.
            updateComponent db now sid k (Val 0) nts = (db', Inr s')
            \<and> find (\<lambda>c. key c = k) (components_of db' sid) = Some c'
            \<and> component_currentValue c' = 0
            \<and> map component_valueAfter (sliceComponentUpdates db') =
                map component_valueAfter (sliceComponentUpdates db) @ [0]"
    by (auto simp: nullish_def)
next
  fix v :: "int js_opt"
  assume "v \<in> {Undefined, Null}"
  then have n: "nullish v (maxValue c) = maxValue c" by (auto simp: nullish_def)
  have "0 \<le> nullish v (maxValue c)" "nullish v (maxValue c) \<le> maxValue c"
    using assms(4) n by simp_all
  from updateComponent_in_range[OF assms(1-3) this, of now nts]
  show "\<exists>db' s' c'.
            updateComponent db now sid k v nts = (db', Inr s')
            \<and> find (\<lambda>c. key c = k) (components_of db' sid) = Some c'
            \<and> component_currentValue c' = maxValue c"
    using n by auto
qed

lemma hygiene_find_teeth [simp]:
  "find (\<lambda>c. key c = ''teeth'') (components_of hygiene_store ''h'') =
     Some (hygiene_component ''teeth'' 30 100 ''daily'' 20 (Some 0))"
  by (simp add: hygiene_components) (simp add: hygiene_store_def hygiene_component_def)

theorem updateComponent_explicit_zero_witness:
  "(\<exists>db' s' c'.
       updateComponent hygiene_store 5 ''h'' ''teeth'' (Val 0) None = (db', Inr s')
       \<and> find (\<lambda>c. key c = ''teeth'') (components_of db' ''h'') = Some c'
       \<and> component_currentValue c' = 0)
   \<and> (\<exists>db' s' c'.
       updateComponent hygiene_store 5 ''h'' ''teeth'' Undefined None = (db', Inr s')
       \<and> find (\<lambda>c. key c = ''teeth'') (components_of db' ''h'') = Some c'
       \<and> component_currentValue c' = 100)"
proof -
  have m: "0 \<le> maxValue (hygiene_component ''teeth'' 30 100 ''daily'' 20 (Some 0))"
    "maxValue (hygiene_component ''teeth'' 30 100 ''daily'' 20 (Some 0)) = 100"
    by (simp_all add: hygiene_component_def)
  from updateComponent_explicit_zero[OF hygiene_find_slice hygiene_is_composite hygiene_find_teeth m(1),
      of 5 None]
  show ?thesis unfolding m(2) by blast
qed


lemma same_but_value_refl [simp]: "same_but_value x x"
  by (simp add: same_but_value_def)

lemma same_but_value_trans:
  "same_but_value x y \<Longrightarrow> same_but_value y z \<Longrightarrow> same_but_value x z"
  unfolding same_but_value_def
  by (metis slice_component.surjective slice_component.update_convs(5) slice_component.select_convs)

lemma same_but_value_lastChecked: "same_but_value x y \<Longrightarrow> lastChecked y = lastChecked x"
  unfolding same_but_value_def by (metis slice_component.select_convs(9) slice_component.surjective slice_component.update_convs(5))

lemma differ_refl [simp]: "components_differ_only_in_value db db"
  by (simp add: components_differ_only_in_value_def list_all2_same)

lemma differ_trans:
  "components_differ_only_in_value a b \<Longrightarrow> components_differ_only_in_value b c \<Longrightarrow>
   components_differ_only_in_value a c"
  unfolding components_differ_only_in_value_def
  by (rule list_all2_trans[OF _ _ _]) (rule same_but_value_trans)

lemma differ_same_components:
  "sliceComponents db' = sliceComponents db \<Longrightarrow> components_differ_only_in_value db db'"
  by (simp add: components_differ_only_in_value_def list_all2_same)

lemma differ_lastChecked:
  "components_differ_only_in_value db db' \<Longrightarrow>
   map lastChecked (sliceComponents db') = map lastChecked (sliceComponents db)"
  unfolding components_differ_only_in_value_def
  by (induction rule: list_all2_induct) (simp_all add: same_but_value_lastChecked)


lemma differ_update_value:
  "components_differ_only_in_value db
     (update_component_row db cid (\<lambda>c. c\<lparr>component_currentValue := v\<rparr>))"
  by (simp add: components_differ_only_in_value_def update_component_row_def list_all2_map2
      list_all2_same same_but_value_def)

lemma decayComponent_unchanged:
  "\<not> snd (decayComponent db c now) \<Longrightarrow> fst (decayComponent db c now) = db"
  by (auto simp: decayComponent_def Let_def split: option.splits if_splits)

lemma decayComponent_changed:
  assumes "snd (decayComponent db c now)"
  shows "\<exists>v row. fst (decayComponent db c now) =
           create_component_update
             (update_component_row db (component_id c) (\<lambda>c. c\<lparr>component_currentValue := v\<rparr>)) row"
  using assms by (auto simp: decayComponent_def Let_def split: option.splits if_splits)

lemma decayComponent_frame:
  "components_differ_only_in_value db (fst (decayComponent db c now))
   \<and> slices (fst (decayComponent db c now)) = slices db
   \<and> sliceUpdates (fst (decayComponent db c now)) = sliceUpdates db
   \<and> (if snd (decayComponent db c now)
       then appended_one (sliceComponentUpdates db) (sliceComponentUpdates (fst (decayComponent db c now)))
       else fst (decayComponent db c now) = db)"
proof (cases "snd (decayComponent db c now)")
  case False
  then show ?thesis by (simp add: decayComponent_unchanged)
next
  case True
  from decayComponent_changed[OF True] obtain v row where
    r: "fst (decayComponent db c now) =
           create_component_update
             (update_component_row db (component_id c) (\<lambda>c. c\<lparr>component_currentValue := v\<rparr>)) row"
    by blast
  have "components_differ_only_in_value db (fst (decayComponent db c now))"
    unfolding r
    by (rule differ_trans[OF differ_update_value[of db "component_id c" v]])
       (simp add: differ_same_components create_component_update_def)
  then show ?thesis
    using True
    by (simp add: r create_component_update_def update_component_row_def appended_one_def)
qed

lemma decay_loop_frame:
  "components_differ_only_in_value db (fst (decay_loop db cs now h))
   \<and> slices (fst (decay_loop db cs now h)) = slices db"
proof (induction cs arbitrary: db h)
  case Nil
  show ?case by simp
next
  case (Cons c cs)
  obtain db' d where e: "decayComponent db c now = (db', d)" by (cases "decayComponent db c now")
  have step: "components_differ_only_in_value db db'" "slices db' = slices db"
    using decayComponent_frame[of db c now] e by simp_all
  from Cons.IH[of db' "if d then True else h"] step e show ?case
    by (auto intro: differ_trans)
qed

lemma recalculateCompositeValue_components [simp]:
  "sliceComponents (recalculateCompositeValue db s) = sliceComponents db"
  by (simp add: recalculateCompositeValue_def Let_def update_slice_row_def split: prod.splits)

lemma decayCompositeSlice_frame:
  "components_differ_only_in_value db (decayCompositeSlice db s cs now)"
proof -
  obtain db' h where e: "decay_loop db cs now False = (db', h)" by (cases "decay_loop db cs now False")
  have "components_differ_only_in_value db db'"
    using decay_loop_frame[of db cs now False] e by simp
  moreover have "components_differ_only_in_value db' (recalculateCompositeValue db' s)"
    by (rule differ_same_components) simp
  ultimately show ?thesis
    using e by (auto simp: decayCompositeSlice_def intro: differ_trans)
qed

lemma decay_slices_frame:
  "components_differ_only_in_value db (decay_slices db xs now)"
proof (induction xs arbitrary: db)
  case Nil
  show ?case by simp
next
  case (Cons x xs)
  obtain s cs where x: "x = (s, cs)" by (cases x)
  show ?case
    unfolding x
    using differ_trans[OF decayCompositeSlice_frame[of db s cs now] Cons.IH] by simp
qed

text \<open>
  Claim C8.  Decaying one component leaves every component row as it was except for its
  current value, so \<open>lastChecked\<close> is unchanged; it writes neither slices nor slice updates,
  and appends one component update exactly when it reports a change.  The whole decay
  sweep likewise changes component rows in their value only.  A successful
  \<open>updateComponent\<close> and a successful \<open>updateMultipleComponents\<close> leave the components they
  were asked to check off with \<open>lastChecked\<close> equal to the time of the call.
\<close>

theorem decay_keeps_lastChecked:
  "(components_differ_only_in_value db (fst (decayComponent db c now))
    \<and> map lastChecked (sliceComponents (fst (decayComponent db c now))) =
        map lastChecked (sliceComponents db)
    \<and> slices (fst (decayComponent db c now)) = slices db
    \<and> sliceUpdates (fst (decayComponent db c now)) = sliceUpdates db
    \<and> (if snd (decayComponent db c now)
        then appended_one (sliceComponentUpdates db)
               (sliceComponentUpdates (fst (decayComponent db c now)))
        else fst (decayComponent db c now) = db))
   \<and> components_differ_only_in_value db (applyCompositeDecay db now)
   \<and> map lastChecked (sliceComponents (applyCompositeDecay db now)) =
       map lastChecked (sliceComponents db)
   \<and> (updateComponent db now sid k v nts = (db', Inr s')
        \<and> find (\<lambda>c. key c = k) (components_of db' sid) = Some c'
       \<longrightarrow> lastChecked c' = Some now)
   \<and> (updateMultipleComponents db now sid ks nts = (db'', Inr s'')
        \<and> k' \<in> set ks \<and> find (\<lambda>c. key c = k') (components_of db'' sid) = Some c''
       \<longrightarrow> lastChecked c'' = Some now)"
  using decayComponent_frame[of db c now] decay_slices_frame
    updateComponent_sets_lastChecked[of db now sid k v nts db' s' c']
    updateMultipleComponents_sets_lastChecked[of db now sid ks nts db'' s'' k' c'']
  by (simp add: differ_lastChecked applyCompositeDecay_def)


lemma hygiene_teeth_decays:
  "snd (decayComponent hygiene_store (hygiene_component ''teeth'' 30 100 ''daily'' 20 (Some 0)) 86400000)"
  by (simp add: decayComponent_def hygiene_component_def periods_elapsed_def daysElapsed_def
      hoursElapsed_def minutesElapsed_def Let_def)

theorem decay_keeps_lastChecked_witness:
  "snd (decayComponent hygiene_store (hygiene_component ''teeth'' 30 100 ''daily'' 20 (Some 0)) 86400000)
   \<and> map lastChecked (sliceComponents (fst (decayComponent hygiene_store
         (hygiene_component ''teeth'' 30 100 ''daily'' 20 (Some 0)) 86400000)))
       = [Some 0, Some 0, Some 0, Some 0, Some 0]
   \<and> (\<exists>db' s' c'. updateComponent hygiene_store 5 ''h'' ''teeth'' Undefined None = (db', Inr s')
         \<and> find (\<lambda>c. key c = ''teeth'') (components_of db' ''h'') = Some c'
         \<and> lastChecked c' = Some 5)
   \<and> (\<exists>db' s' c'. updateMultipleComponents hygiene_store 5 ''h'' [''teeth''] None = (db', Inr s')
         \<and> find (\<lambda>c. key c = ''teeth'') (components_of db' ''h'') = Some c'
         \<and> lastChecked c' = Some 5)"
proof -
  define teeth where "teeth = hygiene_component ''teeth'' 30 100 ''daily'' 20 (Some 0)"
  have m: "0 \<le> nullish Undefined (maxValue teeth)" "nullish Undefined (maxValue teeth) \<le> maxValue teeth"
    by (simp_all add: nullish_def teeth_def hygiene_component_def)
  from updateComponent_in_range[OF hygiene_find_slice hygiene_is_composite
      hygiene_find_teeth[folded teeth_def] m, of 5 None]
  obtain db1 s1 c1 where one:
    "updateComponent hygiene_store 5 ''h'' ''teeth'' Undefined None = (db1, Inr s1)"
    "find (\<lambda>c. key c = ''teeth'') (components_of db1 ''h'') = Some c1"
    by blast
  define dbk where "dbk = check_off_keys hygiene_store 5 (components_of hygiene_store ''h'') [''teeth''] None"
  from recalculate_parent_succeeds[OF hygiene_is_composite, of dbk 5] obtain db2 s2 where
    r: "recalculate_parent dbk hygiene_slice 5 = (db2, Inr s2)" by blast
  have many: "updateMultipleComponents hygiene_store 5 ''h'' [''teeth''] None = (db2, Inr s2)"
    using r by (simp add: updateMultipleComponents_def dbk_def)
  have "components_of db2 ''h'' = components_of dbk ''h''"
    using components_of_recalculate_parent[of dbk hygiene_slice 5 "''h''"] r by simp
  also have "\<dots> = components_of (check_off hygiene_store 5 teeth (maxValue teeth) None) ''h''"
    by (simp add: dbk_def hygiene_find_teeth[folded teeth_def] teeth_def[symmetric])
  finally have "find (\<lambda>c. key c = ''teeth'') (components_of db2 ''h'') =
      Some (teeth\<lparr>component_currentValue := maxValue teeth, lastChecked := Some 5\<rparr>)"
    using find_checked_off_component[OF hygiene_find_teeth[folded teeth_def], of 5 "maxValue teeth" None]
    by simp
  then obtain c2 where two: "find (\<lambda>c. key c = ''teeth'') (components_of db2 ''h'') = Some c2"
    by blast
  have lc: "map lastChecked (sliceComponents hygiene_store) = [Some 0, Some 0, Some 0, Some 0, Some 0]"
    by (simp add: hygiene_store_def hygiene_component_def)
  have k: "''teeth'' \<in> set [''teeth'']" by simp
  show ?thesis
    using decay_keeps_lastChecked[where db = hygiene_store and c = teeth and now = 86400000]
      decay_keeps_lastChecked[where db = hygiene_store and now = 5 and sid = "''h''"
        and k = "''teeth''" and v = Undefined and nts = None and db' = db1 and s' = s1 and c' = c1
        and ks = "[''teeth'']" and db'' = db2 and s'' = s2 and k' = "''teeth''" and c'' = c2]
      one two many k hygiene_teeth_decays lc
    unfolding teeth_def by auto
qed

end
